theory Spec2Isabelle
  imports Complex_Main "HOL-Library.AList" "HOL-Library.Multiset"
    "HOL-Library.Char_ord" "HOL-Library.List_Lexorder"
begin

section \<open>Data model of suggest-swaps.py\<close>

text \<open>
  Python objects are mutable and shared: the same \<^verbatim>\<open>CephOsd\<close> object sits in the device
  list, in a host's bucket, and in the tuple that the search returns, and \<^verbatim>\<open>swap_osd\<close>
  assigns to its \<^verbatim>\<open>hostname\<close> field. The model therefore keeps an explicit store: the device
  list itself, in which a device is referred to by its position (its address). A bucket
  holds addresses. A Python dict keeps insertion order, so it is an association list;
  \<open>map_of\<close> is the lookup and \<open>AList.update\<close> the assignment (in place for a key that is
  present, at the end for a new key).

  The field \<^verbatim>\<open>id\<close> of the source is \<open>osd_id\<close> here, since \<open>id\<close> is the identity function
  of HOL. Both classes have a field \<^verbatim>\<open>hostname\<close>; the one of a host is written
  \<open>CephHost.hostname\<close>.
\<close>

type_synonym addr = nat

record CephHost =
  hostname :: string
  osd_by_type :: "(string \<times> addr list) list"

record CephOsd =
  osd_id :: int
  bluestore_bdev_size :: int
  device_ids :: string
  hostname :: string
  bluestore_bdev_type :: string

record topology =
  osds :: "CephOsd list"
  hosts :: "CephHost list"

text \<open>The exceptions that the code of the optimizer can raise.\<close>

datatype error =
    StopIteration | KeyError string | ValueError
  | CalledProcessError int | FileNotFoundError | JSONDecodeError

subsection \<open>group_osds_by_host_and_type\<close>

text \<open>
  One iteration of the loop over the devices, for the device at address \<open>i\<close>: the host's
  entry is created when missing, then \<^verbatim>\<open>setdefault(type, []).append(osd)\<close>.
\<close>

definition group_step ::
  "CephOsd list \<Rightarrow> addr \<Rightarrow> (string \<times> (string \<times> addr list) list) list
     \<Rightarrow> (string \<times> (string \<times> addr list) list) list" where
  "group_step heap i hs =
     (let osd = heap ! i;
          hs1 = (if map_of hs (hostname osd) = None
                 then AList.update (hostname osd) [] hs else hs);
          types = (case map_of hs1 (hostname osd) of None \<Rightarrow> [] | Some d \<Rightarrow> d);
          bucket = (case map_of types (bluestore_bdev_type osd) of
                      None \<Rightarrow> [] | Some l \<Rightarrow> l)
      in AList.update (hostname osd)
           (AList.update (bluestore_bdev_type osd) (bucket @ [i]) types) hs1)"

definition group_osds_by_host_and_type :: "CephOsd list \<Rightarrow> topology" where
  "group_osds_by_host_and_type heap =
     \<lparr>osds = heap,
      hosts = map (\<lambda>(host, types). \<lparr>CephHost.hostname = host, osd_by_type = types\<rparr>)
                (fold (group_step heap) [0..<length heap] [])\<rparr>"

subsection \<open>calculate_spread_by_type\<close>

text \<open>
  \<^verbatim>\<open>np.std\<close> is the population standard deviation. It is modelled over the real numbers:
  the rounding of IEEE doubles is not part of the model. The sample is never empty in
  the program (a key of \<^verbatim>\<open>total_sizes_by_type\<close> has at least one entry).
\<close>

definition std :: "int list \<Rightarrow> real" where
  "std xs =
     (let n = real (length xs);
          mean = (\<Sum>x\<leftarrow>xs. real_of_int x) / n
      in sqrt ((\<Sum>x\<leftarrow>xs. (real_of_int x - mean)\<^sup>2) / n))"

definition sum_bdev_size :: "CephOsd list \<Rightarrow> addr list \<Rightarrow> int" where
  "sum_bdev_size heap l = (\<Sum>i\<leftarrow>l. bluestore_bdev_size (heap ! i))"

definition setdefault_append ::
  "string \<Rightarrow> int \<Rightarrow> (string \<times> int list) list \<Rightarrow> (string \<times> int list) list" where
  "setdefault_append k x d =
     AList.update k ((case map_of d k of None \<Rightarrow> [] | Some l \<Rightarrow> l) @ [x]) d"

definition total_sizes_by_type :: "topology \<Rightarrow> (string \<times> int list) list" where
  "total_sizes_by_type s =
     fold (\<lambda>host acc.
             fold (\<lambda>(osd_type, l) acc'.
                     setdefault_append osd_type (sum_bdev_size (osds s) l div 10 ^ 9) acc')
                  (osd_by_type host) acc)
          (hosts s) []"

definition calculate_spread_by_type :: "topology \<Rightarrow> (string \<times> real) list" where
  "calculate_spread_by_type s =
     map (\<lambda>(osd_type, sizes). (osd_type, std sizes)) (total_sizes_by_type s)"

subsection \<open>swap_osd\<close>

text \<open>\<^verbatim>\<open>next(host for host in hosts if host.hostname == name)\<close>: the position of the first
  host of that name; exhaustion raises \<^verbatim>\<open>StopIteration\<close>.\<close>

fun find_host :: "CephHost list \<Rightarrow> string \<Rightarrow> nat option" where
  "find_host [] name = None"
| "find_host (h # hs) name =
     (if CephHost.hostname h = name then Some 0 else map_option Suc (find_host hs name))"

text \<open>\<^verbatim>\<open>list.remove(x)\<close> deletes the first element that is \<open>x\<close> or compares equal to it; a
  dataclass compares field by field. \<open>None\<close> stands for the \<^verbatim>\<open>ValueError\<close>.\<close>

fun list_remove :: "CephOsd list \<Rightarrow> addr \<Rightarrow> addr list \<Rightarrow> addr list option" where
  "list_remove heap x [] = None"
| "list_remove heap x (y # ys) =
     (if y = x \<or> heap ! y = heap ! x then Some ys
      else map_option ((#) y) (list_remove heap x ys))"

definition set_bucket :: "topology \<Rightarrow> nat \<Rightarrow> string \<Rightarrow> addr list \<Rightarrow> topology" where
  "set_bucket s i t l =
     s\<lparr>hosts := (hosts s)[i := (hosts s ! i)
                  \<lparr>osd_by_type := AList.update t l (osd_by_type (hosts s ! i))\<rparr>]\<rparr>"

text \<open>\<^verbatim>\<open>host.osd_by_type[t].remove(osd)\<close> for the host at position \<open>i\<close>.\<close>

definition bucket_remove :: "topology \<Rightarrow> nat \<Rightarrow> string \<Rightarrow> addr \<Rightarrow> error + topology" where
  "bucket_remove s i t x =
     (case map_of (osd_by_type (hosts s ! i)) t of
        None \<Rightarrow> Inl (KeyError t)
      | Some l \<Rightarrow>
          (case list_remove (osds s) x l of
             None \<Rightarrow> Inl ValueError
           | Some l' \<Rightarrow> Inr (set_bucket s i t l')))"

text \<open>\<^verbatim>\<open>host.osd_by_type[t].append(osd)\<close> for the host at position \<open>i\<close>.\<close>

definition bucket_append :: "topology \<Rightarrow> nat \<Rightarrow> string \<Rightarrow> addr \<Rightarrow> error + topology" where
  "bucket_append s i t x =
     (case map_of (osd_by_type (hosts s ! i)) t of
        None \<Rightarrow> Inl (KeyError t)
      | Some l \<Rightarrow> Inr (set_bucket s i t (l @ [x])))"

text \<open>The tuple assignment reads both host names first, then writes \<open>osd_a\<close>, then \<open>osd_b\<close>.\<close>

definition swap_hostnames :: "topology \<Rightarrow> addr \<Rightarrow> addr \<Rightarrow> topology" where
  "swap_hostnames s a b =
     (let name_a = hostname (osds s ! a);
          name_b = hostname (osds s ! b);
          heap1 = (osds s)[a := (osds s ! a)\<lparr>hostname := name_b\<rparr>];
          heap2 = heap1[b := (heap1 ! b)\<lparr>hostname := name_a\<rparr>]
      in s\<lparr>osds := heap2\<rparr>)"

definition swap_osd :: "topology \<Rightarrow> addr \<Rightarrow> addr \<Rightarrow> error + topology" where
  "swap_osd s a b =
     (case find_host (hosts s) (hostname (osds s ! a)) of
        None \<Rightarrow> Inl StopIteration
      | Some host_a \<Rightarrow>
     (case find_host (hosts s) (hostname (osds s ! b)) of
        None \<Rightarrow> Inl StopIteration
      | Some host_b \<Rightarrow>
     (case bucket_remove s host_a (bluestore_bdev_type (osds s ! a)) a of
        Inl e \<Rightarrow> Inl e
      | Inr s1 \<Rightarrow>
     (case bucket_remove s1 host_b (bluestore_bdev_type (osds s1 ! b)) b of
        Inl e \<Rightarrow> Inl e
      | Inr s2 \<Rightarrow>
     (let s3 = swap_hostnames s2 a b in
      case bucket_append s3 host_a (bluestore_bdev_type (osds s3 ! b)) b of
        Inl e \<Rightarrow> Inl e
      | Inr s4 \<Rightarrow> bucket_append s4 host_b (bluestore_bdev_type (osds s4 ! a)) a)))))"

subsection \<open>find_best_swap\<close>

text \<open>A loop whose body may raise: the first exception ends it.\<close>

fun fold_err :: "('a \<Rightarrow> 'b \<Rightarrow> error + 'b) \<Rightarrow> 'a list \<Rightarrow> 'b \<Rightarrow> error + 'b" where
  "fold_err f [] acc = Inr acc"
| "fold_err f (x # xs) acc =
     (case f x acc of Inl e \<Rightarrow> Inl e | Inr acc' \<Rightarrow> fold_err f xs acc')"

text \<open>The variables of the search: the topology that is mutated and mutated back, the
  best pair so far, and the highest improvement so far, \<open>None\<close> for \<^verbatim>\<open>-float('inf')\<close>.\<close>

record search =
  topo :: topology
  best_swap :: "(addr \<times> addr) option"
  highest_spread_improvement :: "real option"

text \<open>\<^verbatim>\<open>original[t] - new[t] for t in original.keys()\<close>; a tier missing from the new
  metric raises \<^verbatim>\<open>KeyError\<close>.\<close>

fun improvements_per_type ::
  "(string \<times> real) list \<Rightarrow> (string \<times> real) list \<Rightarrow> error + real list" where
  "improvements_per_type [] new = Inr []"
| "improvements_per_type ((t, old) # rest) new =
     (case map_of new t of
        None \<Rightarrow> Inl (KeyError t)
      | Some v \<Rightarrow>
          (case improvements_per_type rest new of
             Inl e \<Rightarrow> Inl e
           | Inr imps \<Rightarrow> Inr ((old - v) # imps)))"

definition exceeds :: "real \<Rightarrow> real option \<Rightarrow> bool" where
  "exceeds x h = (case h of None \<Rightarrow> True | Some y \<Rightarrow> x > y)"

text \<open>The body of the innermost loop, for the devices at addresses \<open>a\<close> and \<open>b\<close>.\<close>

definition try_swap :: "(string \<times> real) list \<Rightarrow> addr \<Rightarrow> addr \<Rightarrow> search \<Rightarrow> error + search" where
  "try_swap original a b sr =
     (let s = topo sr; osd_a = osds s ! a; osd_b = osds s ! b in
      if bluestore_bdev_size osd_a = bluestore_bdev_size osd_b
         \<and> bluestore_bdev_type osd_a = bluestore_bdev_type osd_b
      then Inr sr
      else
        (case swap_osd s a b of
           Inl e \<Rightarrow> Inl e
         | Inr s1 \<Rightarrow>
        (case improvements_per_type original (calculate_spread_by_type s1) of
           Inl e \<Rightarrow> Inl e
         | Inr imps \<Rightarrow>
        (let total_spread_improvement = sum_list imps;
             all_spreads_not_increased = list_all (\<lambda>imp. imp \<ge> 0) imps;
             sr1 = (if total_spread_improvement > 0
                       \<and> exceeds total_spread_improvement (highest_spread_improvement sr)
                       \<and> all_spreads_not_increased
                    then sr\<lparr>best_swap := Some (a, b),
                            highest_spread_improvement := Some total_spread_improvement\<rparr>
                    else sr)
         in case swap_osd s1 a b of
              Inl e \<Rightarrow> Inl e
            | Inr s2 \<Rightarrow> Inr (sr1\<lparr>topo := s2\<rparr>)))))"

text \<open>\<^verbatim>\<open>list(chain(*host.osd_by_type.values()))\<close>.\<close>

definition host_osds :: "CephHost \<Rightarrow> addr list" where
  "host_osds host = concat (map snd (osd_by_type host))"

text \<open>The body of the loop over \<open>host_b\<close>, for the hosts at positions \<open>i\<close> and \<open>j\<close>. The two
  device lists are copies taken when the pair of hosts is entered.\<close>

definition host_pair :: "(string \<times> real) list \<Rightarrow> nat \<Rightarrow> nat \<Rightarrow> search \<Rightarrow> error + search" where
  "host_pair original i j sr =
     (let host_a = hosts (topo sr) ! i; host_b = hosts (topo sr) ! j in
      if CephHost.hostname host_a = CephHost.hostname host_b then Inr sr
      else
        (let host_a_osds = host_osds host_a; host_b_osds = host_osds host_b in
         fold_err (\<lambda>osd_a. fold_err (\<lambda>osd_b. try_swap original osd_a osd_b) host_b_osds)
           host_a_osds sr))"

text \<open>The function returns the best pair; the topology it leaves behind is returned with
  it, since the caller goes on with that topology.\<close>

definition find_best_swap :: "topology \<Rightarrow> error + ((addr \<times> addr) option \<times> topology)" where
  "find_best_swap s =
     (let original_spread_by_type = calculate_spread_by_type s;
          n = length (hosts s)
      in case fold_err (\<lambda>i. fold_err (\<lambda>j. host_pair original_spread_by_type i j) [0..<n])
                [0..<n]
                \<lparr>topo = s, best_swap = None, highest_spread_improvement = None\<rparr> of
           Inl e \<Rightarrow> Inl e
         | Inr sr \<Rightarrow> Inr (best_swap sr, topo sr))"

subsection \<open>Printing the state, and optimize\<close>

text \<open>
  What the program prints is kept as a list of events, one per \<^verbatim>\<open>print\<close> call or group of
  calls; the rendering of numbers and names into text is not modelled. \<open>Host_report\<close>
  stands for the lines that \<^verbatim>\<open>print_state\<close> prints for one host, \<open>Swap_report\<close> for the
  five lines of one recommended swap, with the two devices as they are when printed.
\<close>

datatype event =
    Line string
  | Error_executing error
  | Host_report CephHost "CephOsd list"
  | Swap_report nat CephOsd CephOsd

definition print_state_py :: "topology \<Rightarrow> event list" where
  "print_state_py s =
     map (\<lambda>host. Host_report host (osds s)) (sort_key CephHost.hostname (hosts s))"

text \<open>
  The \<^verbatim>\<open>while True\<close> loop, with fuel: \<open>None\<close> means that the fuel ran out before the loop
  ended. \<open>i\<close> is the step counter and \<open>out\<close> what has been printed so far.
\<close>

fun optimize_loop ::
  "nat \<Rightarrow> topology \<Rightarrow> nat \<Rightarrow> event list \<Rightarrow> (error + event list \<times> topology) option" where
  "optimize_loop 0 s i out = None"
| "optimize_loop (Suc fuel) s i out =
     (case find_best_swap s of
        Inl e \<Rightarrow> Some (Inl e)
      | Inr (None, s1) \<Rightarrow> Some (Inr (out, s1))
      | Inr (Some (a, b), s1) \<Rightarrow>
          (case swap_osd s1 a b of
             Inl e \<Rightarrow> Some (Inl e)
           | Inr s2 \<Rightarrow>
               optimize_loop fuel s2 (i + 1)
                 (out @ [Swap_report i (osds s1 ! a) (osds s1 ! b)])))"

definition optimize :: "nat \<Rightarrow> topology \<Rightarrow> (error + event list \<times> topology) option" where
  "optimize fuel s =
     (case optimize_loop fuel s 1
             ([Line ''---------- Initial state:''] @ print_state_py s
              @ [Line [], Line ''---------- Balancing steps:'']) of
        None \<Rightarrow> None
      | Some (Inl e) \<Rightarrow> Some (Inl e)
      | Some (Inr (out, s1)) \<Rightarrow>
          Some (Inr (out @ [Line [], Line ''---------- Final state:''] @ print_state_py s1,
                     s1)))"

subsection \<open>get_ceph_osd_metadata and the main program\<close>

text \<open>
  The outside world is an argument: how \<^verbatim>\<open>subprocess.run\<close> with \<^verbatim>\<open>check=True\<close> ends
  (the standard output of a run with exit status 0, a non-zero exit status, which raises
  \<^verbatim>\<open>CalledProcessError\<close>, or a command that cannot be started, which raises
  \<^verbatim>\<open>FileNotFoundError\<close>), the parser \<^verbatim>\<open>json.loads\<close> (\<open>None\<close> for \<^verbatim>\<open>JSONDecodeError\<close>) and the
  conversion \<^verbatim>\<open>int\<close> of a string (\<open>None\<close> for \<^verbatim>\<open>ValueError\<close>). A parsed entry has the five
  fields read by the code, each optional; a number field holds a number or a string.
\<close>

datatype run_result = Completed string | Exit_status int | Not_started

datatype jval = JInt int | JStr string

record json_osd =
  j_id :: "jval option"
  j_bluestore_bdev_size :: "jval option"
  j_device_ids :: "string option"
  j_hostname :: "string option"
  j_bluestore_bdev_type :: "string option"

definition get_int :: "(string \<Rightarrow> int option) \<Rightarrow> jval option \<Rightarrow> error + int" where
  "get_int int_of v =
     (case v of
        None \<Rightarrow> Inr 0
      | Some (JInt n) \<Rightarrow> Inr n
      | Some (JStr s) \<Rightarrow> (case int_of s of None \<Rightarrow> Inl ValueError | Some n \<Rightarrow> Inr n))"

definition get_str :: "string option \<Rightarrow> string" where
  "get_str v = (case v of None \<Rightarrow> [] | Some s \<Rightarrow> s)"

definition make_osd :: "(string \<Rightarrow> int option) \<Rightarrow> json_osd \<Rightarrow> error + CephOsd" where
  "make_osd int_of osd =
     (case get_int int_of (j_id osd) of
        Inl e \<Rightarrow> Inl e
      | Inr i \<Rightarrow>
     (case get_int int_of (j_bluestore_bdev_size osd) of
        Inl e \<Rightarrow> Inl e
      | Inr sz \<Rightarrow>
          Inr \<lparr>osd_id = i, bluestore_bdev_size = sz,
               device_ids = get_str (j_device_ids osd),
               hostname = get_str (j_hostname osd),
               bluestore_bdev_type = get_str (j_bluestore_bdev_type osd)\<rparr>))"

fun make_osds :: "(string \<Rightarrow> int option) \<Rightarrow> json_osd list \<Rightarrow> error + CephOsd list" where
  "make_osds int_of [] = Inr []"
| "make_osds int_of (osd # rest) =
     (case make_osd int_of osd of
        Inl e \<Rightarrow> Inl e
      | Inr obj \<Rightarrow>
          (case make_osds int_of rest of Inl e \<Rightarrow> Inl e | Inr objs \<Rightarrow> Inr (obj # objs)))"

text \<open>The result is what is printed together with the device list, or the exception that
  leaves the function. Only \<^verbatim>\<open>CalledProcessError\<close> has a handler.\<close>

definition get_ceph_osd_metadata ::
  "run_result \<Rightarrow> (string \<Rightarrow> json_osd list option) \<Rightarrow> (string \<Rightarrow> int option)
     \<Rightarrow> error + event list \<times> CephOsd list" where
  "get_ceph_osd_metadata run loads int_of =
     (case run of
        Exit_status n \<Rightarrow> Inr ([Error_executing (CalledProcessError n)], [])
      | Not_started \<Rightarrow> Inl FileNotFoundError
      | Completed stdout \<Rightarrow>
          (case loads stdout of
             None \<Rightarrow> Inl JSONDecodeError
           | Some osd_metadata \<Rightarrow>
               (case make_osds int_of osd_metadata of
                  Inl e \<Rightarrow> Inl e
                | Inr osd_objects \<Rightarrow> Inr ([], osd_objects))))"

text \<open>The program: \<open>Inl\<close> is an exception that ends it, \<open>Inr\<close> everything it printed.\<close>

definition main ::
  "nat \<Rightarrow> run_result \<Rightarrow> (string \<Rightarrow> json_osd list option) \<Rightarrow> (string \<Rightarrow> int option)
     \<Rightarrow> (error + event list) option" where
  "main fuel run loads int_of =
     (case get_ceph_osd_metadata run loads int_of of
        Inl e \<Rightarrow> Some (Inl e)
      | Inr (printed, devices) \<Rightarrow>
          (case optimize fuel (group_osds_by_host_and_type devices) of
             None \<Rightarrow> None
           | Some (Inl e) \<Rightarrow> Some (Inl e)
           | Some (Inr (out, s)) \<Rightarrow> Some (Inr (printed @ out))))"

section \<open>Example inventories\<close>

text \<open>A device of \<open>gb\<close> units of \<open>10\<^sup>9\<close> bytes.\<close>

definition osd_gb :: "int \<Rightarrow> int \<Rightarrow> string \<Rightarrow> string \<Rightarrow> CephOsd" where
  "osd_gb i gb host t =
     \<lparr>osd_id = i, bluestore_bdev_size = gb * 10 ^ 9, device_ids = [], hostname = host,
      bluestore_bdev_type = t\<rparr>"

text \<open>Host X with one hdd device, host Y with one ssd device.\<close>

definition mixed_tiers :: topology where
  "mixed_tiers =
     group_osds_by_host_and_type [osd_gb 0 10 ''X'' ''hdd'', osd_gb 1 5 ''Y'' ''ssd'']"

text \<open>Scenario A: host X with one hdd device of 10 units, host Y with hdd devices of 2
  and 6 units.\<close>

definition scenario_a :: topology where
  "scenario_a =
     group_osds_by_host_and_type
       [osd_gb 0 10 ''X'' ''hdd'', osd_gb 1 2 ''Y'' ''hdd'', osd_gb 2 6 ''Y'' ''hdd'']"

text \<open>A parser and a conversion that accept nothing.\<close>

definition no_json :: "string \<Rightarrow> json_osd list option" where
  "no_json text = None"

definition no_int :: "string \<Rightarrow> int option" where
  "no_int text = None"



text \<open>Hosts X and Y, each with an hdd device of 10 units and an ssd device of 1 unit.\<close>

definition two_tiers :: topology where
  "two_tiers =
     group_osds_by_host_and_type
       [osd_gb 0 10 ''X'' ''hdd'', osd_gb 1 1 ''X'' ''ssd'',
        osd_gb 2 10 ''Y'' ''hdd'', osd_gb 3 1 ''Y'' ''ssd'']"

text \<open>A device with its capacity in bytes.\<close>

definition osd_bytes :: "int \<Rightarrow> int \<Rightarrow> string \<Rightarrow> string \<Rightarrow> CephOsd" where
  "osd_bytes i n host t =
     \<lparr>osd_id = i, bluestore_bdev_size = n, device_ids = [], hostname = host,
      bluestore_bdev_type = t\<rparr>"

text \<open>Two hosts with one device of \<open>10\<^sup>9\<close> bytes each, and the same with one byte less on X.\<close>

definition even_pair :: topology where
  "even_pair =
     group_osds_by_host_and_type
       [osd_bytes 0 1000000000 ''X'' ''hdd'', osd_bytes 1 1000000000 ''Y'' ''hdd'']"

definition uneven_pair :: topology where
  "uneven_pair =
     group_osds_by_host_and_type
       [osd_bytes 0 999999999 ''X'' ''hdd'', osd_bytes 1 1000000000 ''Y'' ''hdd'']"

text \<open>Two topologies with the totals 2 and 0 after flooring: X with 1.5 and 0.6 units and Y
  with 0.5 units; X with 2 units and Y with 0.3 units.\<close>

definition split_load :: topology where
  "split_load =
     group_osds_by_host_and_type
       [osd_bytes 0 1500000000 ''X'' ''hdd'', osd_bytes 1 600000000 ''X'' ''hdd'',
        osd_bytes 2 500000000 ''Y'' ''hdd'']"

definition single_load :: topology where
  "single_load =
     group_osds_by_host_and_type
       [osd_bytes 0 2000000000 ''X'' ''hdd'', osd_bytes 1 300000000 ''Y'' ''hdd'']"

section \<open>Well-formed topologies and the effect of a swap\<close>

text \<open>
  The definitions of this section are not part of the program: they state what the claims
  are about. A topology is \<open>valid\<close> when it is as \<open>group_osds_by_host_and_type\<close> builds it
  from an inventory with unique device ids, and as every completed swap leaves it: host
  names are pairwise different, the tiers of one host are pairwise different (both are
  keys of a dict), every bucket lists devices of the store without repetition, each of them
  carrying the name of the host and the tier of the bucket, and no two devices agree in all
  the fields other than the host name. The last condition is what \<^verbatim>\<open>list.remove\<close> needs: it
  compares devices field by field, and would take one device for another that agrees with
  it in these fields once a swap has given both the same host name.
\<close>

definition fixed_fields :: "CephOsd \<Rightarrow> int \<times> int \<times> string \<times> string" where
  "fixed_fields osd =
     (osd_id osd, bluestore_bdev_size osd, device_ids osd, bluestore_bdev_type osd)"

definition valid :: "topology \<Rightarrow> bool" where
  "valid s \<longleftrightarrow>
     distinct (map CephHost.hostname (hosts s))
     \<and> (\<forall>h \<in> set (hosts s). distinct (map fst (osd_by_type h)))
     \<and> (\<forall>h \<in> set (hosts s). \<forall>(t, l) \<in> set (osd_by_type h).
           distinct l
           \<and> (\<forall>x \<in> set l.
                 x < length (osds s)
                 \<and> hostname (osds s ! x) = CephHost.hostname h
                 \<and> bluestore_bdev_type (osds s ! x) = t))
     \<and> distinct (map fixed_fields (osds s))"

text \<open>The bucket of a tier in a dict, empty when the tier is not a key; the bucket of tier
  \<open>t\<close> of the host at position \<open>k\<close>.\<close>

definition bucket_of :: "(string \<times> addr list) list \<Rightarrow> string \<Rightarrow> addr list" where
  "bucket_of d t = (case map_of d t of None \<Rightarrow> [] | Some l \<Rightarrow> l)"

definition bucket :: "topology \<Rightarrow> nat \<Rightarrow> string \<Rightarrow> addr list" where
  "bucket s k t = bucket_of (osd_by_type (hosts s ! k)) t"

text \<open>Device \<open>a\<close> sits on the host at position \<open>i\<close>, in the bucket of its own tier; a host
  has a bucket for a tier.\<close>

definition located :: "topology \<Rightarrow> nat \<Rightarrow> addr \<Rightarrow> bool" where
  "located s i a \<longleftrightarrow>
     i < length (hosts s)
     \<and> a \<in> set (bucket_of (osd_by_type (hosts s ! i)) (bluestore_bdev_type (osds s ! a)))"

definition has_bucket :: "CephHost \<Rightarrow> string \<Rightarrow> bool" where
  "has_bucket h t \<longleftrightarrow> t \<in> set (map fst (osd_by_type h))"

text \<open>The conditions under which \<open>swap_osd\<close> exchanges \<open>a\<close> on host \<open>i\<close> with \<open>b\<close> on host \<open>j\<close>:
  the two hosts are different, and each has a bucket for the tier of the device it receives.\<close>

definition swappable :: "topology \<Rightarrow> nat \<Rightarrow> nat \<Rightarrow> addr \<Rightarrow> addr \<Rightarrow> bool" where
  "swappable s i j a b \<longleftrightarrow>
     valid s \<and> located s i a \<and> located s j b \<and> i \<noteq> j
     \<and> has_bucket (hosts s ! i) (bluestore_bdev_type (osds s ! b))
     \<and> has_bucket (hosts s ! j) (bluestore_bdev_type (osds s ! a))"

text \<open>All devices of the topology, host by host and bucket by bucket, and their capacity.\<close>

definition all_osds :: "topology \<Rightarrow> addr list" where
  "all_osds s = concat (map host_osds (hosts s))"

definition total_capacity :: "topology \<Rightarrow> int" where
  "total_capacity s = sum_bdev_size (osds s) (all_osds s)"

text \<open>
  What a swap does to one dict: \<open>x\<close> leaves the bucket of tier \<open>t\<close>, then \<open>y\<close> is appended to
  the bucket of tier \<open>t'\<close>. \<open>moved\<close> is the same on the buckets as a function of the tier.
  \<open>exchanged\<close> is the topology after the swap of \<open>a\<close> on host \<open>i\<close> with \<open>b\<close> on host \<open>j\<close>.
\<close>

definition dict_exchange ::
  "(string \<times> addr list) list \<Rightarrow> string \<Rightarrow> addr \<Rightarrow> string \<Rightarrow> addr \<Rightarrow> (string \<times> addr list) list" where
  "dict_exchange d t x t' y =
     (let d1 = AList.update t (remove1 x (bucket_of d t)) d
      in AList.update t' (bucket_of d1 t' @ [y]) d1)"

definition moved ::
  "string \<Rightarrow> addr \<Rightarrow> string \<Rightarrow> addr \<Rightarrow> (string \<Rightarrow> addr list) \<Rightarrow> string \<Rightarrow> addr list" where
  "moved t x t' y B k =
     (if k = t' then (if t' = t then remove1 x (B t) else B t') @ [y]
      else if k = t then remove1 x (B t) else B k)"

definition host_exchange :: "CephHost \<Rightarrow> string \<Rightarrow> addr \<Rightarrow> string \<Rightarrow> addr \<Rightarrow> CephHost" where
  "host_exchange h t x t' y = h\<lparr>osd_by_type := dict_exchange (osd_by_type h) t x t' y\<rparr>"

definition exchanged :: "topology \<Rightarrow> nat \<Rightarrow> nat \<Rightarrow> addr \<Rightarrow> addr \<Rightarrow> topology" where
  "exchanged s i j a b =
     (let ta = bluestore_bdev_type (osds s ! a); tb = bluestore_bdev_type (osds s ! b) in
      \<lparr>osds = osds (swap_hostnames s a b),
       hosts = (hosts s)[i := host_exchange (hosts s ! i) ta a tb b,
                         j := host_exchange (hosts s ! j) tb b ta a]\<rparr>)"

text \<open>A bucket is in order: no repetition, and every device in it carries the name of the
  host and the tier of the bucket.\<close>

definition bucket_ok :: "topology \<Rightarrow> nat \<Rightarrow> string \<Rightarrow> bool" where
  "bucket_ok s k t \<longleftrightarrow>
     distinct (bucket s k t)
     \<and> (\<forall>x \<in> set (bucket s k t).
           x < length (osds s)
           \<and> hostname (osds s ! x) = CephHost.hostname (hosts s ! k)
           \<and> bluestore_bdev_type (osds s ! x) = t)"


text \<open>The topology in which device \<open>a\<close> of host \<open>i\<close> has moved to the end of its bucket.\<close>

definition sent_to_end :: "topology \<Rightarrow> nat \<Rightarrow> addr \<Rightarrow> topology" where
  "sent_to_end s i a =
     (let t = bluestore_bdev_type (osds s ! a)
      in set_bucket s i t (remove1 a (bucket s i t) @ [a]))"

text \<open>Two topologies are the same up to the order within buckets: the same store, the same
  hosts in the same order, each with the same tiers in the same order, and each bucket
  with the same devices.\<close>

definition abs_host :: "CephHost \<Rightarrow> string \<times> (string \<times> addr multiset) list" where
  "abs_host h = (CephHost.hostname h, map (\<lambda>(t, l). (t, mset l)) (osd_by_type h))"

definition same_up_to_order :: "topology \<Rightarrow> topology \<Rightarrow> bool" where
  "same_up_to_order s s' \<longleftrightarrow>
     osds s = osds s' \<and> map abs_host (hosts s) = map abs_host (hosts s')"


section \<open>What the metric depends on\<close>

text \<open>The totals that the metric is computed from: for each host, in the order of the
  hosts, and each of its buckets, in the order of the dict, the tier and the capacity of
  the bucket in whole units of \<open>10\<^sup>9\<close> bytes.\<close>

definition gb_totals :: "topology \<Rightarrow> (string \<times> int) list list" where
  "gb_totals s =
     map (\<lambda>host. map (\<lambda>(osd_type, l). (osd_type, sum_bdev_size (osds s) l div 10 ^ 9))
                  (osd_by_type host))
         (hosts s)"

text \<open>The sample of a tier as the code builds it: one entry for each host that has a bucket
  for the tier, in the order of the hosts.\<close>

definition tier_sample :: "string \<Rightarrow> topology \<Rightarrow> int list" where
  "tier_sample t s =
     concat (map (\<lambda>host. case map_of (osd_by_type host) t of
                           None \<Rightarrow> []
                         | Some l \<Rightarrow> [sum_bdev_size (osds s) l div 10 ^ 9])
                 (hosts s))"

text \<open>The sample of a tier in the words of the specification: one entry for each host that
  has at least one device of the tier.\<close>

definition spec_tier_sample :: "string \<Rightarrow> topology \<Rightarrow> int list" where
  "spec_tier_sample t s =
     concat (map (\<lambda>host. case map_of (osd_by_type host) t of
                           None \<Rightarrow> []
                         | Some l \<Rightarrow> if l = [] then []
                                    else [sum_bdev_size (osds s) l div 10 ^ 9])
                 (hosts s))"

text \<open>
  The statements of \<^verbatim>\<open>swap_osd\<close> up to the exchange of the host names, before the two
  appends: the positions of the two hosts and the topology at that point, in which
  neither device is in a bucket. \<open>swap_osd\<close> is these statements followed by the appends.
\<close>

definition swap_osd_removals :: "topology \<Rightarrow> addr \<Rightarrow> addr \<Rightarrow> error + nat \<times> nat \<times> topology" where
  "swap_osd_removals s a b =
     (case find_host (hosts s) (hostname (osds s ! a)) of
        None \<Rightarrow> Inl StopIteration
      | Some host_a \<Rightarrow>
     (case find_host (hosts s) (hostname (osds s ! b)) of
        None \<Rightarrow> Inl StopIteration
      | Some host_b \<Rightarrow>
     (case bucket_remove s host_a (bluestore_bdev_type (osds s ! a)) a of
        Inl e \<Rightarrow> Inl e
      | Inr s1 \<Rightarrow>
     (case bucket_remove s1 host_b (bluestore_bdev_type (osds s1 ! b)) b of
        Inl e \<Rightarrow> Inl e
      | Inr s2 \<Rightarrow> Inr (host_a, host_b, swap_hostnames s2 a b)))))"

section \<open>Evaluation\<close>

lemmas eval_defs =
  group_osds_by_host_and_type_def group_step_def osd_gb_def osd_bytes_def
  total_sizes_by_type_def setdefault_append_def sum_bdev_size_def
  calculate_spread_by_type_def std_def
  swap_osd_def bucket_remove_def bucket_append_def set_bucket_def swap_hostnames_def
  try_swap_def host_pair_def host_osds_def find_best_swap_def exceeds_def
  Let_def upt_rec

lemma find_host_nth:
  "distinct (map CephHost.hostname hs) \<Longrightarrow> i < length hs \<Longrightarrow>
   find_host hs (CephHost.hostname (hs ! i)) = Some i"
proof (induction hs arbitrary: i)
  case Nil then show ?case by simp
next
  case (Cons h hs)
  show ?case
  proof (cases i)
    case 0 then show ?thesis by simp
  next
    case (Suc k)
    with Cons.prems have "k < length hs" "CephHost.hostname (hs ! k) \<in> set (map CephHost.hostname hs)"
      by auto
    with Cons Suc show ?thesis by auto
  qed
qed

lemma list_remove_remove1:
  assumes "x \<in> set l" and "\<And>y. y \<in> set l \<Longrightarrow> heap ! y = heap ! x \<Longrightarrow> y = x"
  shows "list_remove heap x l = Some (remove1 x l)"
  using assms by (induction l) auto

lemma osds_set_bucket [simp]: "osds (set_bucket s i t l) = osds s"
  by (simp add: set_bucket_def)

lemma length_hosts_set_bucket [simp]: "length (hosts (set_bucket s i t l)) = length (hosts s)"
  by (simp add: set_bucket_def)

lemma hosts_set_bucket:
  "hosts (set_bucket s i t l) =
     (hosts s)[i := (hosts s ! i)\<lparr>osd_by_type := AList.update t l (osd_by_type (hosts s ! i))\<rparr>]"
  by (simp add: set_bucket_def)

lemma hosts_swap_hostnames [simp]: "hosts (swap_hostnames s a b) = hosts s"
  by (simp add: swap_hostnames_def Let_def)

lemma length_osds_swap_hostnames [simp]: "length (osds (swap_hostnames s a b)) = length (osds s)"
  by (simp add: swap_hostnames_def Let_def)

lemma nth_upd_type:
  "bluestore_bdev_type v = bluestore_bdev_type (xs ! a) \<Longrightarrow>
   bluestore_bdev_type (xs[a := v] ! x) = bluestore_bdev_type (xs ! x)"
  by (cases "a < length xs") (auto simp add: nth_list_update list_update_beyond not_less)

lemma nth_upd_size:
  "bluestore_bdev_size v = bluestore_bdev_size (xs ! a) \<Longrightarrow>
   bluestore_bdev_size (xs[a := v] ! x) = bluestore_bdev_size (xs ! x)"
  by (cases "a < length xs") (auto simp add: nth_list_update list_update_beyond not_less)

lemma nth_upd_id:
  "osd_id v = osd_id (xs ! a) \<Longrightarrow> osd_id (xs[a := v] ! x) = osd_id (xs ! x)"
  by (cases "a < length xs") (auto simp add: nth_list_update list_update_beyond not_less)

lemma type_swap_hostnames [simp]:
  "bluestore_bdev_type (osds (swap_hostnames s a b) ! x) = bluestore_bdev_type (osds s ! x)"
  by (simp add: swap_hostnames_def Let_def nth_upd_type)

lemma size_swap_hostnames [simp]:
  "bluestore_bdev_size (osds (swap_hostnames s a b) ! x) = bluestore_bdev_size (osds s ! x)"
  by (simp add: swap_hostnames_def Let_def nth_upd_size)

lemma id_swap_hostnames [simp]:
  "osd_id (osds (swap_hostnames s a b) ! x) = osd_id (osds s ! x)"
  by (simp add: swap_hostnames_def Let_def nth_upd_id)

lemma map_id_swap_hostnames [simp]:
  "map osd_id (osds (swap_hostnames s a b)) = map osd_id (osds s)"
  by (rule nth_equalityI) simp_all

lemma fixed_fields_hostname [simp]: "fixed_fields (osd\<lparr>hostname := n\<rparr>) = fixed_fields osd"
  by (simp add: fixed_fields_def)

lemma nth_upd_fixed:
  "fixed_fields v = fixed_fields (xs ! a) \<Longrightarrow> fixed_fields (xs[a := v] ! x) = fixed_fields (xs ! x)"
  by (cases "a < length xs") (auto simp add: nth_list_update list_update_beyond not_less)

lemma fixed_fields_swap_hostnames [simp]:
  "fixed_fields (osds (swap_hostnames s a b) ! x) = fixed_fields (osds s ! x)"
  by (simp add: swap_hostnames_def Let_def nth_upd_fixed)

lemma map_fixed_fields_swap_hostnames [simp]:
  "map fixed_fields (osds (swap_hostnames s a b)) = map fixed_fields (osds s)"
  by (rule nth_equalityI) simp_all

lemma hostname_swap_hostnames:
  "a < length (osds s) \<Longrightarrow> b < length (osds s) \<Longrightarrow> a \<noteq> b \<Longrightarrow>
   hostname (osds (swap_hostnames s a b) ! x) =
     (if x = a then hostname (osds s ! b) else if x = b then hostname (osds s ! a)
      else hostname (osds s ! x))"
  by (simp add: swap_hostnames_def Let_def nth_list_update)

lemma bucket_of_Some: "map_of d t = Some l \<Longrightarrow> bucket_of d t = l"
  by (simp add: bucket_of_def)

lemma has_bucket_map_of:
  "has_bucket h t \<Longrightarrow> map_of (osd_by_type h) t = Some (bucket_of (osd_by_type h) t)"
  by (cases "map_of (osd_by_type h) t")
     (auto simp add: has_bucket_def bucket_of_def map_of_eq_None_iff)

lemma located_map_of:
  assumes "located s i a"
  shows "map_of (osd_by_type (hosts s ! i)) (bluestore_bdev_type (osds s ! a))
           = Some (bucket_of (osd_by_type (hosts s ! i)) (bluestore_bdev_type (osds s ! a)))"
  using assms
  by (cases "map_of (osd_by_type (hosts s ! i)) (bluestore_bdev_type (osds s ! a))")
     (auto simp add: located_def bucket_of_def)

lemma valid_bucket:
  assumes "valid s" "i < length (hosts s)" "map_of (osd_by_type (hosts s ! i)) t = Some l"
  shows "distinct l \<and> (\<forall>x \<in> set l.
                 x < length (osds s)
                 \<and> hostname (osds s ! x) = CephHost.hostname (hosts s ! i)
                 \<and> bluestore_bdev_type (osds s ! x) = t)"
proof -
  have h: "hosts s ! i \<in> set (hosts s)" using assms(2) by simp
  have m: "(t, l) \<in> set (osd_by_type (hosts s ! i))" using assms(3) by (rule map_of_SomeD)
  from assms(1)
  have "\<forall>h \<in> set (hosts s). \<forall>(t, l) \<in> set (osd_by_type h).
           distinct l
           \<and> (\<forall>x \<in> set l.
                 x < length (osds s)
                 \<and> hostname (osds s ! x) = CephHost.hostname h
                 \<and> bluestore_bdev_type (osds s ! x) = t)"
    unfolding valid_def by (elim conjE)
  then have "\<forall>(t, l) \<in> set (osd_by_type (hosts s ! i)).
           distinct l
           \<and> (\<forall>x \<in> set l.
                 x < length (osds s)
                 \<and> hostname (osds s ! x) = CephHost.hostname (hosts s ! i)
                 \<and> bluestore_bdev_type (osds s ! x) = t)"
    using h by (rule bspec)
  then show ?thesis using m by fast
qed

lemma valid_bucket_member:
  assumes "valid s" "i < length (hosts s)" "map_of (osd_by_type (hosts s ! i)) t = Some l" "x \<in> set l"
  shows "x < length (osds s)" "hostname (osds s ! x) = CephHost.hostname (hosts s ! i)"
    "bluestore_bdev_type (osds s ! x) = t"
  using valid_bucket[OF assms(1-3)] assms(4) by blast+

lemma valid_located:
  assumes "valid s" "located s i a"
  shows "a < length (osds s)" "hostname (osds s ! a) = CephHost.hostname (hosts s ! i)"
proof -
  have i: "i < length (hosts s)"
    and a: "a \<in> set (bucket_of (osd_by_type (hosts s ! i)) (bluestore_bdev_type (osds s ! a)))"
    using assms(2) unfolding located_def by blast+
  show "a < length (osds s)"
    by (rule valid_bucket_member(1)[OF assms(1) i located_map_of[OF assms(2)] a])
  show "hostname (osds s ! a) = CephHost.hostname (hosts s ! i)"
    by (rule valid_bucket_member(2)[OF assms(1) i located_map_of[OF assms(2)] a])
qed

lemma valid_same_record:
  assumes "valid s" "x < length (osds s)" "y < length (osds s)" "osds s ! y = osds s ! x"
  shows "y = x"
proof -
  have "distinct (map fixed_fields (osds s))" using assms(1) by (simp add: valid_def)
  moreover have "map fixed_fields (osds s) ! y = map fixed_fields (osds s) ! x" using assms by simp
  ultimately show ?thesis using assms(2,3) nth_eq_iff_index_eq[of "map fixed_fields (osds s)" y x]
    by simp
qed

lemma bucket_remove_ok:
  assumes "map_of (osd_by_type (hosts s ! i)) t = Some l" "x \<in> set l"
    and "\<And>y. y \<in> set l \<Longrightarrow> osds s ! y = osds s ! x \<Longrightarrow> y = x"
  shows "bucket_remove s i t x = Inr (set_bucket s i t (remove1 x l))"
  using assms by (simp add: bucket_remove_def list_remove_remove1)

lemma bucket_append_ok:
  assumes "map_of (osd_by_type (hosts s ! i)) t = Some l"
  shows "bucket_append s i t x = Inr (set_bucket s i t (l @ [x]))"
  using assms by (simp add: bucket_append_def)

lemma osds_swap_hostnames_cong:
  "osds s = osds s' \<Longrightarrow> osds (swap_hostnames s a b) = osds (swap_hostnames s' a b)"
  by (simp add: swap_hostnames_def Let_def)

lemma map_of_update_present:
  "map_of d t' = Some l' \<Longrightarrow> map_of (AList.update t l d) t' = Some (if t' = t then l else l')"
  by (simp add: update_conv')

theorem swap_osd_exchanged:
  assumes v: "valid s" and la: "located s i a" and lb: "located s j b" and ij: "i \<noteq> j"
    and ba: "has_bucket (hosts s ! i) (bluestore_bdev_type (osds s ! b))"
    and bb: "has_bucket (hosts s ! j) (bluestore_bdev_type (osds s ! a))"
  shows "swap_osd s a b = Inr (exchanged s i j a b)"
proof -
  define ta where "ta = bluestore_bdev_type (osds s ! a)"
  define tb where "tb = bluestore_bdev_type (osds s ! b)"
  define di where "di = osd_by_type (hosts s ! i)"
  define dj where "dj = osd_by_type (hosts s ! j)"
  have i: "i < length (hosts s)" and j: "j < length (hosts s)"
    using la lb by (simp_all add: located_def)
  have ma: "map_of di ta = Some (bucket_of di ta)" and ina: "a \<in> set (bucket_of di ta)"
    using located_map_of[OF la] la by (simp_all add: ta_def di_def located_def)
  have mb: "map_of dj tb = Some (bucket_of dj tb)" and inb: "b \<in> set (bucket_of dj tb)"
    using located_map_of[OF lb] lb by (simp_all add: tb_def dj_def located_def)
  have a: "a < length (osds s)" "hostname (osds s ! a) = CephHost.hostname (hosts s ! i)"
    using valid_located[OF v la] by simp_all
  have b: "b < length (osds s)" "hostname (osds s ! b) = CephHost.hostname (hosts s ! j)"
    using valid_located[OF v lb] by simp_all
  have dn: "distinct (map CephHost.hostname (hosts s))" using v by (simp add: valid_def)
  have fa: "find_host (hosts s) (hostname (osds s ! a)) = Some i"
    using find_host_nth[OF dn i] a by simp
  have fb: "find_host (hosts s) (hostname (osds s ! b)) = Some j"
    using find_host_nth[OF dn j] b by simp
  have ua: "\<And>y. y \<in> set (bucket_of di ta) \<Longrightarrow> osds s ! y = osds s ! a \<Longrightarrow> y = a"
    using valid_same_record[OF v a(1)] valid_bucket_member(1)[OF v i ma[unfolded di_def]]
    unfolding di_def by blast
  have ub: "\<And>y. y \<in> set (bucket_of dj tb) \<Longrightarrow> osds s ! y = osds s ! b \<Longrightarrow> y = b"
    using valid_same_record[OF v b(1)] valid_bucket_member(1)[OF v j mb[unfolded dj_def]]
    unfolding dj_def by blast
  define s1 where "s1 = set_bucket s i ta (remove1 a (bucket_of di ta))"
  have r1: "bucket_remove s i ta a = Inr s1"
    unfolding s1_def using ma ina ua by (intro bucket_remove_ok) (simp_all add: di_def)
  have h1j: "hosts s1 ! j = hosts s ! j" using ij by (simp add: s1_def hosts_set_bucket)
  define s2 where "s2 = set_bucket s1 j tb (remove1 b (bucket_of dj tb))"
  have o1: "osds s1 = osds s" by (simp add: s1_def)
  have r2: "bucket_remove s1 j tb b = Inr s2"
    unfolding s2_def using mb inb ub
    by (intro bucket_remove_ok) (simp_all add: dj_def h1j o1)
  define s3 where "s3 = swap_hostnames s2 a b"
  define d1 where "d1 = AList.update ta (remove1 a (bucket_of di ta)) di"
  have h3i: "osd_by_type (hosts s3 ! i) = d1"
    using ij i by (simp add: s3_def s2_def s1_def hosts_set_bucket d1_def di_def)
  have kb: "map_of di tb \<noteq> None" using ba
    by (simp add: has_bucket_def tb_def di_def map_of_eq_None_iff)
  then have m1: "map_of d1 tb = Some (bucket_of d1 tb)"
    by (cases "map_of d1 tb") (auto simp add: d1_def update_conv' bucket_of_def split: if_splits)
  define s4 where "s4 = set_bucket s3 i tb (bucket_of d1 tb @ [b])"
  have r3: "bucket_append s3 i tb b = Inr s4"
    unfolding s4_def using m1 by (intro bucket_append_ok) (simp add: h3i)
  define d2 where "d2 = AList.update tb (remove1 b (bucket_of dj tb)) dj"
  have h4j: "osd_by_type (hosts s4 ! j) = d2"
    using ij j by (simp add: s4_def s3_def s2_def s1_def hosts_set_bucket d2_def dj_def)
  have ka: "map_of dj ta \<noteq> None" using bb
    by (simp add: has_bucket_def ta_def dj_def map_of_eq_None_iff)
  then have m2: "map_of d2 ta = Some (bucket_of d2 ta)"
    by (cases "map_of d2 ta") (auto simp add: d2_def update_conv' bucket_of_def split: if_splits)
  define s5 where "s5 = set_bucket s4 j ta (bucket_of d2 ta @ [a])"
  have r4: "bucket_append s4 j ta a = Inr s5"
    unfolding s5_def using m2 by (intro bucket_append_ok) (simp add: h4j)
  have t3: "bluestore_bdev_type (osds s3 ! b) = tb" "bluestore_bdev_type (osds s4 ! a) = ta"
    by (simp_all add: s4_def s3_def s2_def s1_def ta_def tb_def)
  have t1: "bluestore_bdev_type (osds s1 ! b) = tb" by (simp add: s1_def tb_def)
  have sw: "swap_osd s a b = Inr s5"
    unfolding swap_osd_def
    by (simp add: fa fb ta_def[symmetric] r1 t1 r2 Let_def s3_def[symmetric] t3 r3 r4)
  have o5: "osds s5 = osds (swap_hostnames s a b)"
    unfolding s5_def s4_def s3_def
    by (simp, rule osds_swap_hostnames_cong) (simp add: s2_def s1_def)
  have h5: "hosts s5 = (hosts s)[i := host_exchange (hosts s ! i) ta a tb b,
                         j := host_exchange (hosts s ! j) tb b ta a]"
    using ij i j
    by (simp add: s5_def s4_def s3_def s2_def s1_def hosts_set_bucket host_exchange_def
        dict_exchange_def Let_def d1_def[symmetric] d2_def[symmetric] di_def[symmetric]
        dj_def[symmetric] list_update_swap[of i j] )
  have "s5 = exchanged s i j a b"
    by (rule topology.equality)
       (simp_all add: o5 h5 exchanged_def Let_def ta_def tb_def)
  with sw show ?thesis by simp
qed

lemma map_of_bucket_of:
  "map_of d k = (if k \<in> set (map fst d) then Some (bucket_of d k) else None)"
  by (cases "map_of d k")
     (auto simp add: bucket_of_def dom_map_of_conv_image_fst[symmetric] domIff)


lemma keys_update:
  "k \<in> set (map fst d) \<Longrightarrow> map fst (AList.update k v d) = map fst d"
  by (simp add: update_keys)

lemma bucket_of_update:
  "bucket_of (AList.update k v d) k' = (if k' = k then v else bucket_of d k')"
  by (simp add: bucket_of_def update_conv')

lemma keys_dict_exchange:
  "t \<in> set (map fst d) \<Longrightarrow> t' \<in> set (map fst d) \<Longrightarrow>
   map fst (dict_exchange d t x t' y) = map fst d"
  by (simp add: dict_exchange_def Let_def keys_update)

lemma bucket_of_dict_exchange:
  "bucket_of (dict_exchange d t x t' y) k =
     (if k = t' then (if t' = t then remove1 x (bucket_of d t) else bucket_of d t') @ [y]
      else if k = t then remove1 x (bucket_of d t) else bucket_of d k)"
  by (simp add: dict_exchange_def Let_def bucket_of_update)

lemma hostname_host_exchange [simp]:
  "CephHost.hostname (host_exchange h t x t' y) = CephHost.hostname h"
  by (simp add: host_exchange_def)

lemma obt_host_exchange [simp]:
  "osd_by_type (host_exchange h t x t' y) = dict_exchange (osd_by_type h) t x t' y"
  by (simp add: host_exchange_def)

lemma mset_concat_update:
  "distinct (map fst d) \<Longrightarrow> k \<in> set (map fst d) \<Longrightarrow>
   mset (concat (map snd (AList.update k v d))) + mset (bucket_of d k)
     = mset (concat (map snd d)) + mset v"
proof (induction d)
  case Nil
  then show ?case by simp
next
  case (Cons p d)
  show ?case
  proof (cases "fst p = k")
    case True
    then show ?thesis by (simp add: bucket_of_def)
  next
    case False
    with Cons.prems have "k \<in> set (map fst d)" "distinct (map fst d)" by auto
    from Cons.IH[OF this(2,1)] False show ?thesis by (simp add: bucket_of_def)
  qed
qed

lemma mset_concat_dict_exchange:
  assumes "distinct (map fst d)" "t \<in> set (map fst d)" "t' \<in> set (map fst d)"
    "x \<in> set (bucket_of d t)"
  shows "mset (concat (map snd (dict_exchange d t x t' y))) + {#x#}
           = mset (concat (map snd d)) + {#y#}"
proof -
  define d1 where "d1 = AList.update t (remove1 x (bucket_of d t)) d"
  have k1: "map fst d1 = map fst d" unfolding d1_def by (rule keys_update[OF assms(2)])
  have "mset (concat (map snd d1)) + mset (bucket_of d t)
          = mset (concat (map snd d)) + mset (remove1 x (bucket_of d t))"
    unfolding d1_def by (rule mset_concat_update[OF assms(1,2)])
  then have "mset (concat (map snd d1)) + mset (bucket_of d t) + {#x#}
          = mset (concat (map snd d)) + (mset (remove1 x (bucket_of d t)) + {#x#})"
    by (simp add: ac_simps)
  also have "mset (remove1 x (bucket_of d t)) + {#x#} = mset (bucket_of d t)"
    using assms(4) by simp
  finally have e1: "mset (concat (map snd d1)) + {#x#} = mset (concat (map snd d))"
    by simp
  have "mset (concat (map snd (AList.update t' (bucket_of d1 t' @ [y]) d1)))
          + mset (bucket_of d1 t')
        = mset (concat (map snd d1)) + mset (bucket_of d1 t' @ [y])"
    by (rule mset_concat_update) (use assms k1 in simp_all)
  then have e2: "mset (concat (map snd (AList.update t' (bucket_of d1 t' @ [y]) d1)))
        = mset (concat (map snd d1)) + {#y#}"
    by simp
  show ?thesis
    unfolding dict_exchange_def Let_def d1_def[symmetric] e2 using e1 by (simp add: ac_simps)
qed

lemma mset_concat_map_update:
  "i < length H \<Longrightarrow>
   mset (concat (map f (H[i := h]))) + mset (f (H ! i)) = mset (concat (map f H)) + mset (f h)"
proof (induction H arbitrary: i)
  case Nil
  then show ?case by simp
next
  case (Cons g H)
  then show ?case by (cases i) (simp_all add: ac_simps)
qed

lemma valid_iff:
  "valid s \<longleftrightarrow>
     distinct (map CephHost.hostname (hosts s))
     \<and> distinct (map fixed_fields (osds s))
     \<and> (\<forall>k < length (hosts s).
           distinct (map fst (osd_by_type (hosts s ! k)))
           \<and> (\<forall>t \<in> set (map fst (osd_by_type (hosts s ! k))). bucket_ok s k t))"
  (is "?L \<longleftrightarrow> ?R")
proof
  assume v: ?L
  have "distinct (map fst (osd_by_type (hosts s ! k)))" if "k < length (hosts s)" for k
    using v that unfolding valid_def by (meson nth_mem)
  moreover have "bucket_ok s k t"
    if "k < length (hosts s)" "t \<in> set (map fst (osd_by_type (hosts s ! k)))" for k t
  proof -
    have "map_of (osd_by_type (hosts s ! k)) t = Some (bucket s k t)"
      using that(2) by (simp add: map_of_bucket_of bucket_def)
    from valid_bucket[OF v that(1) this] show ?thesis by (simp add: bucket_ok_def)
  qed
  moreover have "distinct (map CephHost.hostname (hosts s))" "distinct (map fixed_fields (osds s))"
    using v by (simp_all add: valid_def)
  ultimately show ?R by blast
next
  assume r: ?R
  have "distinct l \<and> (\<forall>x \<in> set l. x < length (osds s)
            \<and> hostname (osds s ! x) = CephHost.hostname h
            \<and> bluestore_bdev_type (osds s ! x) = t)"
    if "h \<in> set (hosts s)" "(t, l) \<in> set (osd_by_type h)" for h t l
  proof -
    from that(1) obtain k where k: "k < length (hosts s)" "h = hosts s ! k"
      by (auto simp add: in_set_conv_nth)
    have d: "distinct (map fst (osd_by_type h))" using r k by blast
    have t: "t \<in> set (map fst (osd_by_type h))" using that(2) by force
    have "map_of (osd_by_type h) t = Some l" using d that(2) by (rule map_of_is_SomeI)
    then have "bucket s k t = l" by (simp add: bucket_def k bucket_of_def)
    moreover have "bucket_ok s k t" using r k t by blast
    ultimately show ?thesis by (simp add: bucket_ok_def k)
  qed
  moreover have "distinct (map fst (osd_by_type h))" if "h \<in> set (hosts s)" for h
    using r that by (auto simp add: in_set_conv_nth)
  ultimately show ?L using r unfolding valid_def by blast
qed

lemma osds_exchanged: "osds (exchanged s i j a b) = osds (swap_hostnames s a b)"
  by (simp add: exchanged_def Let_def)

lemma length_hosts_exchanged [simp]: "length (hosts (exchanged s i j a b)) = length (hosts s)"
  by (simp add: exchanged_def Let_def)

lemma nth_hosts_exchanged:
  "k < length (hosts s) \<Longrightarrow>
   hosts (exchanged s i j a b) ! k =
     (if k = j then host_exchange (hosts s ! j) (bluestore_bdev_type (osds s ! b)) b
                      (bluestore_bdev_type (osds s ! a)) a
      else if k = i then host_exchange (hosts s ! i) (bluestore_bdev_type (osds s ! a)) a
                      (bluestore_bdev_type (osds s ! b)) b
      else hosts s ! k)"
  by (simp add: exchanged_def Let_def nth_list_update)

lemma hostname_nth_exchanged:
  "k < length (hosts s) \<Longrightarrow>
   CephHost.hostname (hosts (exchanged s i j a b) ! k) = CephHost.hostname (hosts s ! k)"
  by (simp add: nth_hosts_exchanged)

lemma hostnames_exchanged:
  "map CephHost.hostname (hosts (exchanged s i j a b)) = map CephHost.hostname (hosts s)"
  by (rule nth_equalityI) (simp_all add: hostname_nth_exchanged)

lemma swappable_facts:
  assumes "swappable s i j a b"
  shows "valid s" "i < length (hosts s)" "j < length (hosts s)" "i \<noteq> j"
    "bluestore_bdev_type (osds s ! a) \<in> set (map fst (osd_by_type (hosts s ! i)))"
    "bluestore_bdev_type (osds s ! b) \<in> set (map fst (osd_by_type (hosts s ! i)))"
    "bluestore_bdev_type (osds s ! a) \<in> set (map fst (osd_by_type (hosts s ! j)))"
    "bluestore_bdev_type (osds s ! b) \<in> set (map fst (osd_by_type (hosts s ! j)))"
    "a \<in> set (bucket s i (bluestore_bdev_type (osds s ! a)))"
    "b \<in> set (bucket s j (bluestore_bdev_type (osds s ! b)))"
    "a < length (osds s)" "b < length (osds s)"
    "hostname (osds s ! a) = CephHost.hostname (hosts s ! i)"
    "hostname (osds s ! b) = CephHost.hostname (hosts s ! j)"
proof -
  have la: "located s i a" and lb: "located s j b"
    using assms by (simp_all add: swappable_def)
  show v: "valid s" and "i \<noteq> j"
    using assms by (simp_all add: swappable_def)
  show "i < length (hosts s)" "j < length (hosts s)" using la lb by (simp_all add: located_def)
  show "bluestore_bdev_type (osds s ! b) \<in> set (map fst (osd_by_type (hosts s ! i)))"
    "bluestore_bdev_type (osds s ! a) \<in> set (map fst (osd_by_type (hosts s ! j)))"
    using assms by (simp_all add: swappable_def has_bucket_def)
  show ma: "a \<in> set (bucket s i (bluestore_bdev_type (osds s ! a)))"
    and mb: "b \<in> set (bucket s j (bluestore_bdev_type (osds s ! b)))"
    using la lb by (simp_all add: located_def bucket_def)
  show "bluestore_bdev_type (osds s ! a) \<in> set (map fst (osd_by_type (hosts s ! i)))"
    using located_map_of[OF la] by (simp add: map_of_bucket_of split: if_splits)
  show "bluestore_bdev_type (osds s ! b) \<in> set (map fst (osd_by_type (hosts s ! j)))"
    using located_map_of[OF lb] by (simp add: map_of_bucket_of split: if_splits)
  show "a < length (osds s)" "hostname (osds s ! a) = CephHost.hostname (hosts s ! i)"
    using valid_located[OF v la] by blast+
  show "b < length (osds s)" "hostname (osds s ! b) = CephHost.hostname (hosts s ! j)"
    using valid_located[OF v lb] by blast+
qed

lemma keys_nth_exchanged:
  assumes "swappable s i j a b" "k < length (hosts s)"
  shows "map fst (osd_by_type (hosts (exchanged s i j a b) ! k))
           = map fst (osd_by_type (hosts s ! k))"
  using swappable_facts(5-8)[OF assms(1)] assms(2)
  by (simp add: nth_hosts_exchanged keys_dict_exchange)

lemma bucket_exchanged:
  "k < length (hosts s) \<Longrightarrow>
   bucket (exchanged s i j a b) k t =
     (if k = j
      then moved (bluestore_bdev_type (osds s ! b)) b (bluestore_bdev_type (osds s ! a)) a
             (bucket s j) t
      else if k = i
      then moved (bluestore_bdev_type (osds s ! a)) a (bluestore_bdev_type (osds s ! b)) b
             (bucket s i) t
      else bucket s k t)"
  by (simp add: bucket_def nth_hosts_exchanged bucket_of_dict_exchange moved_def)

lemma moved_ok:
  assumes old: "\<And>u. u \<in> K \<Longrightarrow> distinct (B u) \<and> (\<forall>x \<in> set (B u). Q x u)"
    and keys: "t \<in> K" "t' \<in> K" "k \<in> K"
    and fresh: "\<And>u. u \<in> K \<Longrightarrow> y \<notin> set (B u)"
    and new: "Q' y t'"
    and keep: "\<And>x u. u \<in> K \<Longrightarrow> x \<in> set (B u) \<Longrightarrow> x \<noteq> x0 \<Longrightarrow> Q' x u"
    and only: "\<And>u. u \<in> K \<Longrightarrow> u \<noteq> t \<Longrightarrow> x0 \<notin> set (B u)"
  shows "distinct (moved t x0 t' y B k) \<and> (\<forall>x \<in> set (moved t x0 t' y B k). Q' x k)"
proof -
  have d: "\<And>u. u \<in> K \<Longrightarrow> distinct (B u)" using old by blast
  have r: "\<And>x. x \<in> set (remove1 x0 (B t)) \<Longrightarrow> x \<in> set (B t) \<and> x \<noteq> x0"
    using d[OF keys(1)] by simp
  consider (dest) "k = t'" | (src) "k \<noteq> t'" "k = t" | (other) "k \<noteq> t'" "k \<noteq> t" by blast
  then show ?thesis
  proof cases
    case dest
    show ?thesis
    proof (cases "t' = t")
      case True
      then have m: "moved t x0 t' y B k = remove1 x0 (B t) @ [y]"
        using dest by (simp add: moved_def)
      have "y \<notin> set (remove1 x0 (B t))" using fresh[OF keys(1)] r by blast
      moreover have "distinct (remove1 x0 (B t))" using d[OF keys(1)] by simp
      moreover have "Q' x k" if "x \<in> set (remove1 x0 (B t))" for x
        using r[OF that] keep[OF keys(1)] dest True by blast
      ultimately show ?thesis using new dest unfolding m by auto
    next
      case False
      then have m: "moved t x0 t' y B k = B t' @ [y]" using dest by (simp add: moved_def)
      have "Q' x k" if "x \<in> set (B t')" for x
        using keep[OF keys(2) that] only[OF keys(2) False] that dest by blast
      then show ?thesis using new dest d[OF keys(2)] fresh[OF keys(2)] unfolding m by auto
    qed
  next
    case src
    then have m: "moved t x0 t' y B k = remove1 x0 (B t)" by (simp add: moved_def)
    have "Q' x k" if "x \<in> set (remove1 x0 (B t))" for x
      using r[OF that] keep[OF keys(1)] src by blast
    then show ?thesis using d[OF keys(1)] unfolding m by auto
  next
    case other
    then have m: "moved t x0 t' y B k = B k" by (simp add: moved_def)
    have "Q' x k" if "x \<in> set (B k)" for x
      using keep[OF keys(3) that] only[OF keys(3) other(2)] that by blast
    then show ?thesis using d[OF keys(3)] unfolding m by auto
  qed
qed

lemma valid_names_inj:
  assumes "valid s" "k < length (hosts s)" "k' < length (hosts s)"
    "CephHost.hostname (hosts s ! k) = CephHost.hostname (hosts s ! k')"
  shows "k = k'"
proof -
  have "distinct (map CephHost.hostname (hosts s))" using assms(1) by (simp add: valid_def)
  then show ?thesis
    using assms(2-4) nth_eq_iff_index_eq[of "map CephHost.hostname (hosts s)" k k'] by simp
qed

lemma valid_bucket_ok:
  "valid s \<Longrightarrow> k < length (hosts s) \<Longrightarrow> t \<in> set (map fst (osd_by_type (hosts s ! k)))
   \<Longrightarrow> bucket_ok s k t"
  unfolding valid_iff by blast

lemma valid_mem:
  assumes "valid s" "k < length (hosts s)" "t \<in> set (map fst (osd_by_type (hosts s ! k)))"
    "x \<in> set (bucket s k t)"
  shows "x < length (osds s)" "hostname (osds s ! x) = CephHost.hostname (hosts s ! k)"
    "bluestore_bdev_type (osds s ! x) = t"
  using valid_bucket_ok[OF assms(1-3)] assms(4) unfolding bucket_ok_def by blast+

lemma valid_exchanged:
  assumes sw: "swappable s i j a b"
  shows "valid (exchanged s i j a b)"
proof -
  let ?s' = "exchanged s i j a b"
  let ?n = "length (hosts s)"
  let ?keys = "\<lambda>k. set (map fst (osd_by_type (hosts s ! k)))"
  let ?name = "\<lambda>k. CephHost.hostname (hosts s ! k)"
  define ta where "ta = bluestore_bdev_type (osds s ! a)"
  define tb where "tb = bluestore_bdev_type (osds s ! b)"
  note f = swappable_facts[OF sw, folded ta_def tb_def]
  have v: "valid s" by (rule f(1))
  have i: "i < ?n" and j: "j < ?n" and ij: "i \<noteq> j" by (rule f)+
  have nij: "?name i \<noteq> ?name j" using valid_names_inj[OF v i j] ij by blast
  have ab: "a \<noteq> b" using f(13,14) nij by auto
  have where_a: "k = i \<and> t = ta" if "k < ?n" "t \<in> ?keys k" "a \<in> set (bucket s k t)" for k t
    using valid_mem(2,3)[OF v that] f(13) valid_names_inj[OF v that(1) i] ta_def by simp
  have where_b: "k = j \<and> t = tb" if "k < ?n" "t \<in> ?keys k" "b \<in> set (bucket s k t)" for k t
    using valid_mem(2,3)[OF v that] f(14) valid_names_inj[OF v that(1) j] tb_def by simp
  define Q' where "Q' k x u \<longleftrightarrow> x < length (osds ?s') \<and> hostname (osds ?s' ! x) = ?name k
      \<and> bluestore_bdev_type (osds ?s' ! x) = u" for k x u
  have hn: "hostname (osds (swap_hostnames s a b) ! x) =
      (if x = a then ?name j else if x = b then ?name i else hostname (osds s ! x))" for x
    using hostname_swap_hostnames[OF f(11,12) ab] f(13,14) by simp
  have keepQ: "Q' k x t"
    if "k < ?n" "t \<in> ?keys k" "x \<in> set (bucket s k t)" "x \<noteq> a" "x \<noteq> b" for k x t
    using valid_mem[OF v that(1-3)] that(4,5) by (simp add: Q'_def hn osds_exchanged)
  have newa: "Q' j a ta" using f(11) by (simp add: Q'_def hn osds_exchanged ta_def)
  have newb: "Q' i b tb" using f(12) ab by (simp add: Q'_def hn osds_exchanged tb_def)
  have old: "distinct (bucket s k u) \<and> (\<forall>x \<in> set (bucket s k u). True)"
    if "k < ?n" "u \<in> ?keys k" for k u
    using valid_bucket_ok[OF v that] by (simp add: bucket_ok_def)
  have goal: "distinct (bucket ?s' k t) \<and> (\<forall>x \<in> set (bucket ?s' k t). Q' k x t)"
    if k: "k < ?n" and t: "t \<in> ?keys k" for k t
  proof -
    consider (i) "k = i" | (j) "k = j" | (other) "k \<noteq> i" "k \<noteq> j" by blast
    then show ?thesis
    proof cases
      case i
      have b: "bucket ?s' i t = moved ta a tb b (bucket s i) t"
        using ij \<open>i < ?n\<close> by (simp add: bucket_exchanged ta_def tb_def)
      show ?thesis unfolding i b
      proof (rule moved_ok[where K = "?keys i" and Q = "\<lambda>x u. True"])
        show "distinct (bucket s i u) \<and> (\<forall>x \<in> set (bucket s i u). True)" if "u \<in> ?keys i" for u
          using old[OF \<open>i < ?n\<close> that] .
        show "ta \<in> ?keys i" "tb \<in> ?keys i" by (rule f)+
        show "t \<in> ?keys i" using t i by simp
        show "b \<notin> set (bucket s i u)" if "u \<in> ?keys i" for u
          using where_b[OF \<open>i < ?n\<close> that] ij by blast
        show "Q' i b tb" by (rule newb)
        show "Q' i x u" if "u \<in> ?keys i" "x \<in> set (bucket s i u)" "x \<noteq> a" for x u
          using keepQ[OF \<open>i < ?n\<close> that(1,2) that(3)] where_b[OF \<open>i < ?n\<close> that(1)] that(2) ij
          by blast
        show "a \<notin> set (bucket s i u)" if "u \<in> ?keys i" "u \<noteq> ta" for u
          using where_a[OF \<open>i < ?n\<close> that(1)] that(2) by blast
      qed
    next
      case j
      have b: "bucket ?s' j t = moved tb b ta a (bucket s j) t"
        using \<open>j < ?n\<close> by (simp add: bucket_exchanged ta_def tb_def)
      show ?thesis unfolding j b
      proof (rule moved_ok[where K = "?keys j" and Q = "\<lambda>x u. True"])
        show "distinct (bucket s j u) \<and> (\<forall>x \<in> set (bucket s j u). True)" if "u \<in> ?keys j" for u
          using old[OF \<open>j < ?n\<close> that] .
        show "tb \<in> ?keys j" "ta \<in> ?keys j" by (rule f)+
        show "t \<in> ?keys j" using t j by simp
        show "a \<notin> set (bucket s j u)" if "u \<in> ?keys j" for u
          using where_a[OF \<open>j < ?n\<close> that] ij by blast
        show "Q' j a ta" by (rule newa)
        show "Q' j x u" if "u \<in> ?keys j" "x \<in> set (bucket s j u)" "x \<noteq> b" for x u
          using keepQ[OF \<open>j < ?n\<close> that(1,2) _ that(3)] where_a[OF \<open>j < ?n\<close> that(1)] that(2) ij
          by blast
        show "b \<notin> set (bucket s j u)" if "u \<in> ?keys j" "u \<noteq> tb" for u
          using where_b[OF \<open>j < ?n\<close> that(1)] that(2) by blast
      qed
    next
      case other
      have b: "bucket ?s' k t = bucket s k t" using other k by (simp add: bucket_exchanged)
      have "Q' k x t" if "x \<in> set (bucket s k t)" for x
        using keepQ[OF k t that] where_a[OF k t] where_b[OF k t] that other by blast
      then show ?thesis using old[OF k t] unfolding b by blast
    qed
  qed
  have "bucket_ok ?s' k t"
    if "k < length (hosts ?s')" "t \<in> set (map fst (osd_by_type (hosts ?s' ! k)))" for k t
  proof -
    have k: "k < ?n" using that(1) by simp
    have t: "t \<in> ?keys k" using that(2) keys_nth_exchanged[OF sw k] by simp
    from goal[OF k t] show ?thesis
      by (simp add: bucket_ok_def Q'_def hostname_nth_exchanged[OF k])
  qed
  moreover have "distinct (map fst (osd_by_type (hosts ?s' ! k)))" if "k < length (hosts ?s')" for k
  proof -
    have k: "k < ?n" using that by simp
    have "distinct (map fst (osd_by_type (hosts s ! k)))" using v k by (simp add: valid_iff)
    then show ?thesis using keys_nth_exchanged[OF sw k] by simp
  qed
  moreover have "distinct (map CephHost.hostname (hosts ?s'))"
    using v by (simp add: hostnames_exchanged valid_def)
  moreover have "distinct (map fixed_fields (osds ?s'))"
    using v by (simp add: osds_exchanged valid_def)
  ultimately show ?thesis unfolding valid_iff[of ?s'] by blast
qed

lemma mset_cancel4:
  fixes M0 :: "'a multiset"
  assumes "M2 + fj = M1 + fj'" "M1 + fi = M0 + fi'" "fi' + A = fi + B" "fj' + B = fj + A"
  shows "M2 = M0"
proof -
  have "M2 + (fj + fi + A + B) = (M2 + fj) + (fi + A + B)" by (simp add: ac_simps)
  also have "\<dots> = (M1 + fi) + (fj' + B) + A" using assms(1) by (simp add: ac_simps)
  also have "\<dots> = (M0 + fi') + (fj + A) + A" using assms(2,4) by simp
  also have "\<dots> = M0 + (fi' + A) + fj + A" by (simp add: ac_simps)
  also have "\<dots> = M0 + (fi + B) + fj + A" using assms(3) by simp
  also have "\<dots> = M0 + (fj + fi + A + B)" by (simp add: ac_simps)
  finally show ?thesis by simp
qed

lemma sum_bdev_size_mset:
  assumes "mset l = mset l'"
    and "\<And>x. bluestore_bdev_size (heap ! x) = bluestore_bdev_size (heap' ! x)"
  shows "sum_bdev_size heap l = sum_bdev_size heap' l'"
proof -
  have "sum_bdev_size heap l = sum_mset (image_mset (\<lambda>x. bluestore_bdev_size (heap ! x)) (mset l))"
    by (simp add: sum_bdev_size_def sum_mset_sum_list[symmetric])
  also have "\<dots> = sum_mset (image_mset (\<lambda>x. bluestore_bdev_size (heap' ! x)) (mset l'))"
    using assms by simp
  also have "\<dots> = sum_bdev_size heap' l'"
    by (simp add: sum_bdev_size_def sum_mset_sum_list[symmetric])
  finally show ?thesis .
qed

lemma mset_host_osds_exchange:
  assumes "distinct (map fst (osd_by_type h))" "t \<in> set (map fst (osd_by_type h))"
    "t' \<in> set (map fst (osd_by_type h))" "x \<in> set (bucket_of (osd_by_type h) t)"
  shows "mset (host_osds (host_exchange h t x t' y)) + {#x#} = mset (host_osds h) + {#y#}"
  using mset_concat_dict_exchange[OF assms] by (simp add: host_osds_def)

lemma exchanged_conserves:
  assumes sw: "swappable s i j a b"
  shows "mset (host_osds (hosts (exchanged s i j a b) ! i)) + {#a#}
           = mset (host_osds (hosts s ! i)) + {#b#}"
    and "mset (host_osds (hosts (exchanged s i j a b) ! j)) + {#b#}
           = mset (host_osds (hosts s ! j)) + {#a#}"
    and "mset (all_osds (exchanged s i j a b)) = mset (all_osds s)"
proof -
  note f = swappable_facts[OF sw]
  let ?ta = "bluestore_bdev_type (osds s ! a)" and ?tb = "bluestore_bdev_type (osds s ! b)"
  let ?hi = "host_exchange (hosts s ! i) ?ta a ?tb b"
  let ?hj = "host_exchange (hosts s ! j) ?tb b ?ta a"
  have di: "distinct (map fst (osd_by_type (hosts s ! i)))"
    and dj: "distinct (map fst (osd_by_type (hosts s ! j)))"
    using f(1,2,3) by (simp_all add: valid_iff)
  have ei: "mset (host_osds ?hi) + {#a#} = mset (host_osds (hosts s ! i)) + {#b#}"
    using f(9) by (intro mset_host_osds_exchange[OF di f(5,6)]) (simp add: bucket_def)
  have ej: "mset (host_osds ?hj) + {#b#} = mset (host_osds (hosts s ! j)) + {#a#}"
    using f(10) by (intro mset_host_osds_exchange[OF dj f(8,7)]) (simp add: bucket_def)
  show "mset (host_osds (hosts (exchanged s i j a b) ! i)) + {#a#}
           = mset (host_osds (hosts s ! i)) + {#b#}"
    using ei f(2,4) by (simp add: nth_hosts_exchanged)
  show "mset (host_osds (hosts (exchanged s i j a b) ! j)) + {#b#}
           = mset (host_osds (hosts s ! j)) + {#a#}"
    using ej f(3) by (simp add: nth_hosts_exchanged)
  let ?H1 = "(hosts s)[i := ?hi]"
  have 1: "mset (concat (map host_osds (?H1[j := ?hj]))) + mset (host_osds (?H1 ! j))
            = mset (concat (map host_osds ?H1)) + mset (host_osds ?hj)"
    by (rule mset_concat_map_update) (simp add: f(3))
  have 2: "mset (concat (map host_osds ?H1)) + mset (host_osds (hosts s ! i))
            = mset (concat (map host_osds (hosts s))) + mset (host_osds ?hi)"
    by (rule mset_concat_map_update) (rule f(2))
  have 3: "?H1 ! j = hosts s ! j" using f(4) by simp
  have "mset (concat (map host_osds (?H1[j := ?hj]))) = mset (concat (map host_osds (hosts s)))"
    by (rule mset_cancel4[OF 1[unfolded 3] 2 ei ej])
  then show "mset (all_osds (exchanged s i j a b)) = mset (all_osds s)"
    by (simp add: all_osds_def exchanged_def Let_def)
qed

lemma swappableI:
  "valid s \<Longrightarrow> located s i a \<Longrightarrow> located s j b \<Longrightarrow> i \<noteq> j \<Longrightarrow>
   has_bucket (hosts s ! i) (bluestore_bdev_type (osds s ! b)) \<Longrightarrow>
   has_bucket (hosts s ! j) (bluestore_bdev_type (osds s ! a)) \<Longrightarrow> swappable s i j a b"
  by (simp add: swappable_def)

lemma swappable_swap_osd:
  "swappable s i j a b \<Longrightarrow> swap_osd s a b = Inr (exchanged s i j a b)"
  unfolding swappable_def by (elim conjE) (rule swap_osd_exchanged)

lemma swappable_distinct:
  assumes sw: "swappable s i j a b"
  shows "a \<noteq> b"
proof -
  note f = swappable_facts[OF sw]
  have "CephHost.hostname (hosts s ! i) \<noteq> CephHost.hostname (hosts s ! j)"
    using valid_names_inj[OF f(1,2,3)] f(4) by blast
  then show ?thesis using f(13,14) by auto
qed

lemma placed_exchanged:
  assumes sw: "swappable s i j a b"
  shows "b \<in> set (bucket (exchanged s i j a b) i
                    (bluestore_bdev_type (osds (exchanged s i j a b) ! b)))"
    and "a \<in> set (bucket (exchanged s i j a b) j
                    (bluestore_bdev_type (osds (exchanged s i j a b) ! a)))"
  using swappable_facts(2,3,4)[OF sw]
  by (simp_all add: osds_exchanged bucket_exchanged moved_def)

lemma total_capacity_exchanged:
  assumes sw: "swappable s i j a b"
  shows "total_capacity (exchanged s i j a b) = total_capacity s"
  unfolding total_capacity_def
  by (rule sum_bdev_size_mset[OF exchanged_conserves(3)[OF sw]]) (simp add: osds_exchanged)

lemmas eval_valid = valid_def fixed_fields_def located_def has_bucket_def bucket_of_def bucket_def all_osds_def
  total_capacity_def









lemma same_up_to_order_refl [simp]: "same_up_to_order s s"
  by (simp add: same_up_to_order_def)






lemma osds_sent_to_end [simp]: "osds (sent_to_end s i a) = osds s"
  by (simp add: sent_to_end_def Let_def)


lemma fold_fold_concat: "fold (\<lambda>h. fold g (f h)) hs acc = fold g (concat (map f hs)) acc"
  by (induction hs arbitrary: acc) simp_all

lemma total_sizes_by_type_gb_totals:
  "total_sizes_by_type s =
     fold (\<lambda>(t, x). setdefault_append t x) (concat (gb_totals s)) []"
proof -
  have "fold (\<lambda>(osd_type, l). setdefault_append osd_type (sum_bdev_size (osds s) l div 10 ^ 9)) d
        = fold (\<lambda>(t, x). setdefault_append t x)
            (map (\<lambda>(osd_type, l). (osd_type, sum_bdev_size (osds s) l div 10 ^ 9)) d)"
    for d
    by (simp add: fold_map comp_def case_prod_unfold)
  then have "total_sizes_by_type s =
      fold (\<lambda>host. fold (\<lambda>(t, x). setdefault_append t x)
              (map (\<lambda>(osd_type, l). (osd_type, sum_bdev_size (osds s) l div 10 ^ 9))
                 (osd_by_type host))) (hosts s) []"
    unfolding total_sizes_by_type_def by simp
  also have "\<dots> = fold (\<lambda>(t, x). setdefault_append t x) (concat (gb_totals s)) []"
    unfolding gb_totals_def by (rule fold_fold_concat)
  finally show ?thesis .
qed

lemma map_of_setdefault_append:
  "map_of (setdefault_append u x acc) t =
     (if t = u then Some ((case map_of acc u of None \<Rightarrow> [] | Some l \<Rightarrow> l) @ [x])
      else map_of acc t)"
  by (simp add: setdefault_append_def update_conv')

lemma map_of_fold_setdefault_append:
  "map_of (fold (\<lambda>(t, x). setdefault_append t x) es acc) t =
     (if map snd (filter (\<lambda>e. fst e = t) es) = [] then map_of acc t
      else Some ((case map_of acc t of None \<Rightarrow> [] | Some l \<Rightarrow> l)
                 @ map snd (filter (\<lambda>e. fst e = t) es)))"
proof (induction es arbitrary: acc)
  case Nil
  then show ?case by simp
next
  case (Cons e es)
  obtain u x where e: "e = (u, x)" by (cases e)
  show ?case
    unfolding e by (simp add: Cons.IH map_of_setdefault_append)
qed

lemma filter_dict_entries:
  "distinct (map fst d) \<Longrightarrow>
   map snd (filter (\<lambda>e. fst e = t) (map (\<lambda>(u, l). (u, F l)) d))
     = (case map_of d t of None \<Rightarrow> [] | Some l \<Rightarrow> [F l])"
proof (induction d)
  case Nil
  then show ?case by simp
next
  case (Cons p d)
  obtain u l where p: "p = (u, l)" by (cases p)
  show ?case
  proof (cases "u = t")
    case True
    then have "t \<notin> set (map fst d)" using Cons.prems p by simp
    then have "filter (\<lambda>e. fst e = t) (map (\<lambda>(u, l). (u, F l)) d) = []"
      by (force simp add: filter_empty_conv)
    then show ?thesis using True p by simp
  next
    case False
    then show ?thesis using Cons p by simp
  qed
qed

lemma tier_sample_entries:
  assumes "\<forall>h \<in> set (hosts s). distinct (map fst (osd_by_type h))"
  shows "map snd (filter (\<lambda>e. fst e = t) (concat (gb_totals s))) = tier_sample t s"
proof -
  have "map snd (filter (\<lambda>e. fst e = t)
            (concat (map (\<lambda>host. map (\<lambda>(u, l). (u, sum_bdev_size heap l div 10 ^ 9))
                (osd_by_type host)) hs)))
        = concat (map (\<lambda>host. case map_of (osd_by_type host) t of None \<Rightarrow> []
                         | Some l \<Rightarrow> [sum_bdev_size heap l div 10 ^ 9]) hs)"
    if "\<forall>h \<in> set hs. distinct (map fst (osd_by_type h))" for hs heap
    using that by (induction hs) (simp_all add: filter_dict_entries split: option.splits)
  from this[OF assms] show ?thesis by (simp add: gb_totals_def tier_sample_def)
qed

lemma map_of_total_sizes:
  assumes "\<forall>h \<in> set (hosts s). distinct (map fst (osd_by_type h))"
  shows "map_of (total_sizes_by_type s) t =
           (if tier_sample t s = [] then None else Some (tier_sample t s))"
  by (simp add: total_sizes_by_type_gb_totals map_of_fold_setdefault_append
      tier_sample_entries[OF assms])

lemma map_of_calculate_spread:
  assumes "\<forall>h \<in> set (hosts s). distinct (map fst (osd_by_type h))"
  shows "map_of (calculate_spread_by_type s) t =
           (if tier_sample t s = [] then None else Some (std (tier_sample t s)))"
proof -
  have "map_of (map (\<lambda>(osd_type, sizes). (osd_type, std sizes)) d) t
          = map_option std (map_of d t)" for d :: "(string \<times> int list) list"
    by (induction d) auto
  then show ?thesis
    by (simp add: calculate_spread_by_type_def map_of_total_sizes[OF assms])
qed

lemma swap_osd_removals_then_appends:
  "swap_osd s a b =
     (case swap_osd_removals s a b of
        Inl e \<Rightarrow> Inl e
      | Inr (host_a, host_b, s3) \<Rightarrow>
          (case bucket_append s3 host_a (bluestore_bdev_type (osds s3 ! b)) b of
             Inl e \<Rightarrow> Inl e
           | Inr s4 \<Rightarrow> bucket_append s4 host_b (bluestore_bdev_type (osds s4 ! a)) a))"
  by (simp add: swap_osd_def swap_osd_removals_def Let_def split: option.splits sum.splits)

lemma osds_exchanged_explicit:
  "osds (exchanged s i j a b) =
     (osds s)[a := (osds s ! a)\<lparr>hostname := hostname (osds s ! b)\<rparr>,
              b := ((osds s)[a := (osds s ! a)\<lparr>hostname := hostname (osds s ! b)\<rparr>] ! b)
                     \<lparr>hostname := hostname (osds s ! a)\<rparr>]"
  by (simp add: exchanged_def swap_hostnames_def Let_def)















section \<open>The claims\<close>

subsection \<open>C1: the search on devices of different tiers\<close>

text \<open>
  C1 says that a hypothetical swap evaluated by the search never raises, also when the two
  devices have different tier labels. On the topology built from one hdd device on host X
  and one ssd device on host Y the first pair that the search evaluates is not skipped, and
  \<open>swap_osd\<close> raises \<^verbatim>\<open>KeyError\<close>: host X has no bucket for the tier \<open>ssd\<close>. The search ends
  with that exception.
\<close>

theorem find_best_swap_mixed_tiers_raises:
  "swap_osd mixed_tiers 0 1 = Inl (KeyError ''ssd'')
   \<and> find_best_swap mixed_tiers = Inl (KeyError ''ssd'')"
  by (simp add: mixed_tiers_def eval_defs)

subsection \<open>C2: scenario A\<close>

text \<open>
  C2, as stated, says that on scenario A the search proposes to swap the device of 10 units
  with the device of 6 units. The search proposes nothing there, and leaves the topology as
  it was.
\<close>

theorem scenario_a_no_swap_proposed:
  "find_best_swap scenario_a = Inr (None, scenario_a)"
  by (simp add: scenario_a_def eval_defs)

text \<open>
  C2, amended: on scenario A the dispersion of hdd is 1. Swapping the device of 10 units
  with the device of 6 units leaves 6 units on X and 12 on Y and raises the dispersion to 3;
  swapping it with the device of 2 units raises the dispersion to 7. The search returns no
  pair.
\<close>

theorem scenario_a_every_swap_worsens:
  "calculate_spread_by_type scenario_a = [(''hdd'', 1)]
   \<and> map_sum id total_sizes_by_type (swap_osd scenario_a 0 2) = Inr [(''hdd'', [6, 12])]
   \<and> map_sum id calculate_spread_by_type (swap_osd scenario_a 0 2) = Inr [(''hdd'', 3)]
   \<and> map_sum id calculate_spread_by_type (swap_osd scenario_a 0 1) = Inr [(''hdd'', 7)]
   \<and> map_sum id fst (find_best_swap scenario_a) = Inr None"
  by (simp add: scenario_a_def eval_defs)

subsection \<open>C3: a swap and its undoing\<close>




subsection \<open>C4: the sample of a tier\<close>

text \<open>
  C4, as stated, says that a host with zero devices of a tier never contributes an entry to
  the sample of that tier, also in topologies in which a swap has emptied a bucket. In the
  topology with an hdd and an ssd device on each of X and Y, the swap of the hdd device of X
  with the ssd device of Y, which the search evaluates, leaves X with an empty hdd bucket:
  the hdd sample is then 0 and 20, not 20 alone, and the hdd dispersion is 10, not 0.
\<close>

theorem empty_bucket_contributes_zero:
  "map_sum id hosts (swap_osd two_tiers 0 3) =
     Inr [\<lparr>CephHost.hostname = ''X'', osd_by_type = [(''hdd'', []), (''ssd'', [1, 3])]\<rparr>,
          \<lparr>CephHost.hostname = ''Y'', osd_by_type = [(''hdd'', [2, 0]), (''ssd'', [])]\<rparr>]
   \<and> map_sum id total_sizes_by_type (swap_osd two_tiers 0 3) =
     Inr [(''hdd'', [0, 20]), (''ssd'', [2, 0])]
   \<and> map_sum id (spec_tier_sample ''hdd'') (swap_osd two_tiers 0 3) = Inr [20]
   \<and> map_sum id calculate_spread_by_type (swap_osd two_tiers 0 3) =
     Inr [(''hdd'', 10), (''ssd'', 1)]"
  by (simp add: two_tiers_def spec_tier_sample_def eval_defs)

text \<open>
  C4, amended: \<open>calculate_spread_by_type\<close> computes the dispersion of each tier over the
  totals of the hosts that have a bucket for that tier, in the order of the hosts; a host
  without such a bucket contributes nothing, a host whose bucket is empty contributes a
  zero. A tier has a dispersion exactly when some host has a bucket for it.
\<close>

theorem spread_is_over_hosts_with_bucket:
  assumes "\<forall>h \<in> set (hosts s). distinct (map fst (osd_by_type h))"
  shows "map_of (total_sizes_by_type s) t =
           (if tier_sample t s = [] then None else Some (tier_sample t s))
     \<and> map_of (calculate_spread_by_type s) t =
           (if tier_sample t s = [] then None else Some (std (tier_sample t s)))"
  using map_of_total_sizes[OF assms] map_of_calculate_spread[OF assms] by simp

text \<open>The theorem at the topology with two tiers, where the hdd sample is 10 and 10.\<close>

theorem spread_is_over_hosts_with_bucket_witness:
  "tier_sample ''hdd'' two_tiers = [10, 10]
   \<and> map_of (calculate_spread_by_type two_tiers) ''hdd'' = Some (std [10, 10])"
proof -
  have d: "\<forall>h \<in> set (hosts two_tiers). distinct (map fst (osd_by_type h))"
    by (simp add: two_tiers_def eval_defs)
  have t: "tier_sample ''hdd'' two_tiers = [10, 10]"
    by (simp add: two_tiers_def tier_sample_def eval_defs)
  from spread_is_over_hosts_with_bucket[OF d, of "''hdd''"] t show ?thesis by simp
qed

subsection \<open>C8: a swap conserves the devices\<close>

text \<open>
  C8 says that every call of \<open>swap_osd\<close>, hypothetical or applied, conserves the devices of
  the topology. On the topology of C1, with one hdd device on host X and one ssd device on
  host Y, the call that the search makes for these two devices removes both from their
  buckets, exchanges their host names, and then raises \<^verbatim>\<open>KeyError\<close> at the first append,
  since X has no bucket for the tier \<open>ssd\<close>: when the exception leaves \<open>swap_osd\<close>, neither
  device is in a bucket. This is the defect of C1.
\<close>

theorem swap_osd_raises_after_removals:
  "swap_osd_removals mixed_tiers 0 1 =
     Inr (0, 1,
          \<lparr>osds = [osd_gb 0 10 ''Y'' ''hdd'', osd_gb 1 5 ''X'' ''ssd''],
           hosts = [\<lparr>CephHost.hostname = ''X'', osd_by_type = [(''hdd'', [])]\<rparr>,
                    \<lparr>CephHost.hostname = ''Y'', osd_by_type = [(''ssd'', [])]\<rparr>]\<rparr>)
   \<and> swap_osd mixed_tiers 0 1 = Inl (KeyError ''ssd'')"
  by (simp add: mixed_tiers_def swap_osd_removals_def eval_defs)

text \<open>
  When both destination buckets exist, the call conserves the devices. For a device \<open>a\<close> on
  host \<open>i\<close> and a device \<open>b\<close> on another host \<open>j\<close> of a valid topology, each host having a
  bucket for the tier of the device it receives, \<open>swap_osd\<close> returns a topology whose store
  differs from the old one in the host names of \<open>a\<close> and \<open>b\<close> only, which are exchanged, and
  which has the same devices in its buckets, each as often as before, hence as many, and of
  the same total capacity. The devices of host \<open>i\<close> change by \<open>a\<close> for \<open>b\<close>, those of host
  \<open>j\<close> by \<open>b\<close> for \<open>a\<close>, and no other host changes. Afterwards \<open>b\<close> is in the bucket of its own
  tier on host \<open>i\<close> and \<open>a\<close> in the bucket of its own tier on host \<open>j\<close>, and the topology is
  valid again.
\<close>

lemma swap_osd_conserves_devices:
  assumes "valid s" and "located s i a" and "located s j b" and "i \<noteq> j"
    and "has_bucket (hosts s ! i) (bluestore_bdev_type (osds s ! b))"
    and "has_bucket (hosts s ! j) (bluestore_bdev_type (osds s ! a))"
  shows "\<exists>s'. swap_osd s a b = Inr s'
     \<and> osds s' = (osds s)[a := (osds s ! a)\<lparr>hostname := hostname (osds s ! b)\<rparr>,
                         b := (osds s ! b)\<lparr>hostname := hostname (osds s ! a)\<rparr>]
     \<and> mset (all_osds s') = mset (all_osds s)
     \<and> length (all_osds s') = length (all_osds s)
     \<and> total_capacity s' = total_capacity s
     \<and> mset (host_osds (hosts s' ! i)) + {#a#} = mset (host_osds (hosts s ! i)) + {#b#}
     \<and> mset (host_osds (hosts s' ! j)) + {#b#} = mset (host_osds (hosts s ! j)) + {#a#}
     \<and> length (hosts s') = length (hosts s)
     \<and> (\<forall>k. k \<noteq> i \<and> k \<noteq> j \<longrightarrow> hosts s' ! k = hosts s ! k)
     \<and> b \<in> set (bucket s' i (bluestore_bdev_type (osds s' ! b)))
     \<and> a \<in> set (bucket s' j (bluestore_bdev_type (osds s' ! a)))
     \<and> valid s'"
proof -
  have sw: "swappable s i j a b" using assms by (rule swappableI)
  let ?s' = "exchanged s i j a b"
  have "swap_osd s a b = Inr ?s'" by (rule swappable_swap_osd[OF sw])
  moreover have "osds ?s' = (osds s)[a := (osds s ! a)\<lparr>hostname := hostname (osds s ! b)\<rparr>,
                         b := (osds s ! b)\<lparr>hostname := hostname (osds s ! a)\<rparr>]"
    using swappable_distinct[OF sw] by (simp add: exchanged_def swap_hostnames_def Let_def)
  moreover have "mset (all_osds ?s') = mset (all_osds s)" by (rule exchanged_conserves(3)[OF sw])
  moreover from this have "length (all_osds ?s') = length (all_osds s)" by (rule mset_eq_length)
  moreover have "total_capacity ?s' = total_capacity s" by (rule total_capacity_exchanged[OF sw])
  moreover note exchanged_conserves(1,2)[OF sw]
  moreover have "length (hosts ?s') = length (hosts s)" by simp
  moreover have "\<forall>k. k \<noteq> i \<and> k \<noteq> j \<longrightarrow> hosts ?s' ! k = hosts s ! k"
    by (simp add: exchanged_def Let_def)
  moreover note placed_exchanged[OF sw]
  moreover have "valid ?s'" by (rule valid_exchanged[OF sw])
  ultimately show ?thesis by blast
qed

text \<open>The same at scenario A, for the device of 10 units on X and the device of 6 units
  on Y.\<close>

lemma swap_osd_conserves_devices_at_scenario_a:
  "valid scenario_a \<and> located scenario_a 0 0 \<and> located scenario_a 1 2
   \<and> (\<exists>s'. swap_osd scenario_a 0 2 = Inr s'
        \<and> mset (all_osds s') = mset (all_osds scenario_a)
        \<and> total_capacity s' = total_capacity scenario_a
        \<and> valid s')"
proof -
  have v: "valid scenario_a" by (simp add: scenario_a_def eval_defs eval_valid)
  have la: "located scenario_a 0 0" and lb: "located scenario_a 1 2"
    by (simp_all add: scenario_a_def eval_defs eval_valid)
  have hb: "has_bucket (hosts scenario_a ! 0) (bluestore_bdev_type (osds scenario_a ! 2))"
    and ha: "has_bucket (hosts scenario_a ! 1) (bluestore_bdev_type (osds scenario_a ! 0))"
    by (simp_all add: scenario_a_def eval_defs eval_valid)
  have ne: "(0::nat) \<noteq> 1" by simp
  from swap_osd_conserves_devices[OF v la lb ne hb ha] v la lb show ?thesis by blast
qed

subsection \<open>C9: failure of the inventory fetch\<close>

text \<open>
  C9, as stated, says that a fetch that fails by a transport error is logged and treated as
  an empty device list. When the command cannot be started, or its output is not JSON, the
  exception leaves the program.
\<close>

theorem main_aborts_when_fetch_cannot_start:
  "main 1 Not_started no_json no_int = Some (Inl FileNotFoundError)
   \<and> main 1 (Completed ''garbage'') no_json no_int = Some (Inl JSONDecodeError)"
  by (simp add: main_def get_ceph_osd_metadata_def no_json_def)

text \<open>
  C9, amended: if the fetch fails by a non-zero exit status, \<open>get_ceph_osd_metadata\<close> logs
  the failure and returns an empty device list, and the program goes on and prints the
  report of an empty topology: the headings, no host and no swap.
\<close>

theorem main_reports_empty_on_nonzero_exit:
  "get_ceph_osd_metadata (Exit_status n) loads int_of
     = Inr ([Error_executing (CalledProcessError n)], [])
   \<and> main (Suc fuel) (Exit_status n) loads int_of
     = Some (Inr [Error_executing (CalledProcessError n),
                  Line ''---------- Initial state:'', Line [],
                  Line ''---------- Balancing steps:'', Line [],
                  Line ''---------- Final state:''])"
  by (simp add: main_def get_ceph_osd_metadata_def optimize_def print_state_py_def eval_defs)

subsection \<open>C10: whole units\<close>

text \<open>
  C10, as stated, says that a difference of less than \<open>10\<^sup>9\<close> bytes in the total of a host
  and tier is invisible to the metric and cannot affect a swap decision. One byte less on
  a host with \<open>10\<^sup>9\<close> bytes changes the dispersion from 0 to 1/2. And two topologies with
  the same totals after flooring get different decisions: with 1.5 and 0.6 units on X and
  0.5 units on Y the search proposes a swap, with 2 units on X and 0.3 units on Y none.
\<close>

theorem one_byte_changes_the_metric:
  "calculate_spread_by_type even_pair = [(''hdd'', 0)]
   \<and> calculate_spread_by_type uneven_pair = [(''hdd'', 1 / 2)]
   \<and> gb_totals split_load = gb_totals single_load
   \<and> map_sum id fst (find_best_swap split_load) = Inr (Some (0, 2))
   \<and> map_sum id fst (find_best_swap single_load) = Inr None"
  by (simp add: even_pair_def uneven_pair_def split_load_def single_load_def gb_totals_def
      eval_defs)

text \<open>
  C10, amended: \<open>calculate_spread_by_type\<close> depends on the topology only through the totals
  of the buckets floored to whole units of \<open>10\<^sup>9\<close> bytes: two topologies with the same
  floored totals have the same samples and the same dispersions.
\<close>

theorem spread_depends_on_floored_totals:
  "total_sizes_by_type s = fold (\<lambda>(t, x). setdefault_append t x) (concat (gb_totals s)) []
   \<and> (gb_totals s = gb_totals s' \<longrightarrow>
        total_sizes_by_type s = total_sizes_by_type s'
        \<and> calculate_spread_by_type s = calculate_spread_by_type s')"
  by (simp add: total_sizes_by_type_gb_totals calculate_spread_by_type_def)

text \<open>The theorem at the two topologies with the floored totals 2 and 0.\<close>

theorem spread_depends_on_floored_totals_witness:
  "gb_totals split_load = gb_totals single_load
   \<and> split_load \<noteq> single_load
   \<and> calculate_spread_by_type split_load = calculate_spread_by_type single_load"
proof -
  have g: "gb_totals split_load = gb_totals single_load"
    by (simp add: split_load_def single_load_def gb_totals_def eval_defs)
  have n: "split_load \<noteq> single_load"
    by (simp add: split_load_def single_load_def eval_defs)
  from spread_depends_on_floored_totals[of split_load single_load] g n show ?thesis by simp
qed

end
